theory Spec2Isabelle
  imports Complex_Main "HOL-Library.AList"
begin

section \<open>Values, exceptions and the Python primitives the engine uses\<close>

text \<open>
  The engine (\<^verbatim>\<open>sage.py\<close>, class \<^verbatim>\<open>BlackDuckSage\<close>) works on the JSON documents
  the inventory client returns. A JSON value is a \<open>val\<close>; an object is an association list
  whose lookups take the first binding of a key and whose updates keep the position of an
  existing key and append a new one (Python's insertion order). Floats do not occur in the
  model. A string is a list of characters read as code points below 256.

  An exception is a value of \<open>error\<close>; a computation that may raise returns
  \<open>error + 'a\<close> with \<open>Inl\<close> the exception. \<open>Unsupported\<close> is not a Python exception:
  it marks the inputs the model leaves out (an entity name that is not a string, a
  checkpoint field of another JSON type than the engine writes).
\<close>

datatype val =
    VNone
  | VBool bool
  | VInt int
  | VStr string
  | VList "val list"
  | VDict "(string \<times> val) list"

datatype error =
    KeyError string
  | TypeError
  | AttributeError
  | OSError string
  | FileNotFoundError
  | FetchError string
  | Unsupported

definition bind :: "error + 'a \<Rightarrow> ('a \<Rightarrow> error + 'b) \<Rightarrow> error + 'b" where
  "bind m f = (case m of Inl e \<Rightarrow> Inl e | Inr x \<Rightarrow> f x)"

text \<open>\<^verbatim>\<open>obj[key]\<close> with a string key.\<close>

fun subscript :: "val \<Rightarrow> string \<Rightarrow> error + val" where
  "subscript (VDict kvs) k = (case map_of kvs k of None \<Rightarrow> Inl (KeyError k) | Some v \<Rightarrow> Inr v)"
| "subscript v k = Inl TypeError"

text \<open>\<^verbatim>\<open>sub in s\<close> on strings: \<open>sub\<close> occurs in \<open>s\<close> as a contiguous block.\<close>

fun str_contains :: "string \<Rightarrow> string \<Rightarrow> bool" where
  "str_contains [] sub = (sub = [])"
| "str_contains (c # cs) sub = (take (length sub) (c # cs) = sub \<or> str_contains cs sub)"

text \<open>\<^verbatim>\<open>key in obj\<close> with a string key.\<close>

fun py_in :: "string \<Rightarrow> val \<Rightarrow> error + bool" where
  "py_in k (VDict kvs) = Inr (k \<in> set (map fst kvs))"
| "py_in k (VList xs) = Inr (VStr k \<in> set xs)"
| "py_in k (VStr s) = Inr (str_contains s k)"
| "py_in k v = Inl TypeError"

text \<open>Truth value of an object in a condition.\<close>

fun py_truthy :: "val \<Rightarrow> bool" where
  "py_truthy VNone = False"
| "py_truthy (VBool b) = b"
| "py_truthy (VInt n) = (n \<noteq> 0)"
| "py_truthy (VStr s) = (s \<noteq> [])"
| "py_truthy (VList xs) = (xs \<noteq> [])"
| "py_truthy (VDict kvs) = (kvs \<noteq> [])"

text \<open>
  Iteration (\<^verbatim>\<open>for x in v\<close>): the elements of a list, the keys of a dict, the
  characters of a string. \<^verbatim>\<open>len(v)\<close> is defined for the same values and is the number
  of elements iteration yields.
\<close>

fun py_iter :: "val \<Rightarrow> error + val list" where
  "py_iter (VList xs) = Inr xs"
| "py_iter (VDict kvs) = Inr (map (\<lambda>kv. VStr (fst kv)) kvs)"
| "py_iter (VStr s) = Inr (map (\<lambda>c. VStr [c]) s)"
| "py_iter v = Inl TypeError"

text \<open>\<^verbatim>\<open>s.endswith(suf)\<close>; the attribute exists on strings only.\<close>

definition endswith :: "string \<Rightarrow> string \<Rightarrow> bool" where
  "endswith s suf = (take (length suf) (rev s) = rev suf)"

fun py_endswith :: "val \<Rightarrow> string \<Rightarrow> error + bool" where
  "py_endswith (VStr s) suf = Inr (endswith s suf)"
| "py_endswith v suf = Inl AttributeError"

text \<open>An entity name used in a message and as a ledger key.\<close>

fun as_name :: "val \<Rightarrow> error + string" where
  "as_name (VStr s) = Inr s"
| "as_name v = Inl Unsupported"

text \<open>\<^verbatim>\<open>str(n)\<close> of an integer, as \<^verbatim>\<open>"{}".format(n)\<close> renders it.\<close>

definition digit_char :: "nat \<Rightarrow> char" where
  "digit_char d = char_of (48 + d)"

fun show_nat :: "nat \<Rightarrow> string" where
  "show_nat n = (if n < 10 then [digit_char n] else show_nat (n div 10) @ [digit_char (n mod 10)])"

declare show_nat.simps [simp del]

definition show_int :: "int \<Rightarrow> string" where
  "show_int i = (if i < 0 then CHR ''-'' # show_nat (nat (- i)) else show_nat (nat i))"

text \<open>
  \<^verbatim>\<open>_remove_white_space\<close>: \<^verbatim>\<open>" ".join(message.split())\<close>. \<open>split_ws w s\<close> scans \<open>s\<close>
  with the current word \<open>w\<close> (reversed); a maximal run of non-whitespace is a word.
\<close>

definition is_space :: "char \<Rightarrow> bool" where
  "is_space c = ((of_char c :: nat) \<in> {9, 10, 11, 12, 13, 28, 29, 30, 31, 32, 133, 160})"

fun split_ws :: "string \<Rightarrow> string \<Rightarrow> string list" where
  "split_ws w [] = (if w = [] then [] else [rev w])"
| "split_ws w (c # cs) =
     (if is_space c then (if w = [] then split_ws [] cs else rev w # split_ws [] cs)
      else split_ws (c # w) cs)"

fun join_sp :: "string list \<Rightarrow> string" where
  "join_sp [] = []"
| "join_sp [w] = w"
| "join_sp (w # ws) = w @ '' '' @ join_sp ws"

definition remove_white_space :: "string \<Rightarrow> string" where
  "remove_white_space message = join_sp (split_ws [] message)"

section \<open>The attribute extractor\<close>

definition COMMON_ATTRIBUTES :: "string list" where
  "COMMON_ATTRIBUTES = [''name'', ''versionName'', ''createdAt'', ''createdBy'', ''distribution'',
     ''phase'', ''scanSize'', ''settingUpdatedAt'', ''updatedAt'', ''updatedBy'']"

text \<open>The loop over \<^verbatim>\<open>COMMON_ATTRIBUTES\<close>, with the dict built so far.\<close>

fun copy_attrs :: "string list \<Rightarrow> val \<Rightarrow> (string \<times> val) list \<Rightarrow> error + (string \<times> val) list" where
  "copy_attrs [] obj acc = Inr acc"
| "copy_attrs (a # as) obj acc =
     (case py_in a obj of
        Inl e \<Rightarrow> Inl e
      | Inr b \<Rightarrow>
          if b then (case subscript obj a of
                       Inl e \<Rightarrow> Inl e
                     | Inr v \<Rightarrow> copy_attrs as obj (AList.update a v acc))
          else copy_attrs as obj acc)"

text \<open>
  \<^verbatim>\<open>_copy_common_attributes(obj, **kwargs)\<close>; \<open>kwargs\<close> in the order given at the call.
\<close>

definition copy_common_attributes :: "val \<Rightarrow> (string \<times> val) list \<Rightarrow> error + (string \<times> val) list" where
  "copy_common_attributes obj kwargs =
     bind (copy_attrs COMMON_ATTRIBUTES obj []) (\<lambda>common.
     bind (subscript obj ''_meta'') (\<lambda>meta.
     bind (subscript meta ''href'') (\<lambda>href.
     Inr (fold (\<lambda>kv. AList.update (fst kv) (snd kv)) kwargs
            (AList.update ''url'' href common)))))"

section \<open>Configuration, inventory client, engine state\<close>

text \<open>
  The thresholds of \<^verbatim>\<open>__init__\<close> that the engine reads, as integers (defaults 20, 10
  and 60).
\<close>

record config =
  max_versions_per_project :: int
  max_scans_per_version :: int
  max_time_to_retrieve_projects :: int

text \<open>
  The inventory client (\<^verbatim>\<open>HubInstance\<close>) is not part of the repository: each call the
  engine makes is a field, returning the JSON answer or the exception raised. The limits
  the engine passes are constants and are left out; \<open>get_codelocations_unmapped\<close> is
  \<^verbatim>\<open>get_codelocations(limit=999999, unmapped=True)\<close>. Within one run the same request
  gets the same answer.
\<close>

record hub =
  get_projects :: "error + val"
  get_project_versions :: "val \<Rightarrow> error + val"
  get_version_codelocations :: "val \<Rightarrow> error + val"
  get_codelocations_unmapped :: "error + val"
  get_urlbase :: string

text \<open>
  What \<^verbatim>\<open>analyze\<close> measures with \<^verbatim>\<open>time.time()\<close> around the project listing: the
  seconds elapsed and the text Python prints for that float.
\<close>

record clock =
  elapsed :: real
  elapsed_repr :: string

text \<open>
  The attributes \<^verbatim>\<open>__init__\<close> sets. The two sets of the ledger are lists read through
  \<open>set\<close>; \<open>List.insert\<close> is \<^verbatim>\<open>set.add\<close>.
\<close>

record state =
  other_issues :: "val list"
  suspect_projects :: "val list"
  suspect_versions :: "val list"
  unmapped_scans :: val
  reviewed_projects :: "string list"
  reviewed_versions :: "string list"

definition new_state :: state where
  "new_state = \<lparr>other_issues = [], suspect_projects = [], suspect_versions = [],
     unmapped_scans = VDict [], reviewed_projects = [], reviewed_versions = []\<rparr>"

section \<open>The checkpoint store\<close>

text \<open>
  \<^verbatim>\<open>_write_results\<close>: the document written to the file. The file holds the JSON text of
  this document; the model keeps the document itself.
\<close>

definition write_results :: "hub \<Rightarrow> state \<Rightarrow> val" where
  "write_results h s = VDict
     [(''hub_url'', VStr (get_urlbase h)),
      (''other_issues'', VList (other_issues s)),
      (''unmapped_scans'', unmapped_scans s),
      (''suspect_projects'', VList (suspect_projects s)),
      (''suspect_versions'', VList (suspect_versions s)),
      (''reviewed_projects'', VList (map VStr (reviewed_projects s))),
      (''reviewed_versions'', VList (map VStr (reviewed_versions s)))]"

text \<open>A findings field of the checkpoint: the engine appends to it, so it is a list.\<close>

fun as_list :: "val \<Rightarrow> error + val list" where
  "as_list (VList xs) = Inr xs"
| "as_list v = Inl Unsupported"

text \<open>
  \<^verbatim>\<open>set(v)\<close> for a ledger field: a list of strings gives the set of its elements, a
  string the set of its characters, a dict the set of its keys; a list or dict among the
  elements is unhashable, and \<^verbatim>\<open>None\<close>, a boolean or a number cannot be iterated.
\<close>

fun hashable_strs :: "val list \<Rightarrow> error + string list" where
  "hashable_strs [] = Inr []"
| "hashable_strs (VStr s # xs) =
     (case hashable_strs xs of Inl e \<Rightarrow> Inl e | Inr r \<Rightarrow> Inr (s # r))"
| "hashable_strs (VList l # xs) = Inl TypeError"
| "hashable_strs (VDict d # xs) = Inl TypeError"
| "hashable_strs (v # xs) =
     (case hashable_strs xs of Inl e \<Rightarrow> Inl e | Inr r \<Rightarrow> Inl Unsupported)"

definition py_set :: "val \<Rightarrow> error + string list" where
  "py_set v = bind (py_iter v) (\<lambda>xs. bind (hashable_strs xs) (\<lambda>strs. Inr (remdups strs)))"

text \<open>The \<^verbatim>\<open>else\<close> branch of \<^verbatim>\<open>__init__\<close>, on the document read from the file.\<close>

definition load_state :: "val \<Rightarrow> error + state" where
  "load_state sage_data =
     bind (subscript sage_data ''other_issues'') (\<lambda>oi.
     bind (subscript sage_data ''unmapped_scans'') (\<lambda>um0.
     bind (subscript sage_data ''suspect_projects'') (\<lambda>sp.
     bind (subscript sage_data ''suspect_versions'') (\<lambda>sv.
     bind (subscript sage_data ''unmapped_scans'') (\<lambda>um.
     bind (subscript sage_data ''reviewed_projects'') (\<lambda>rp.
     bind (py_set rp) (\<lambda>rps.
     bind (subscript sage_data ''reviewed_versions'') (\<lambda>rv.
     bind (py_set rv) (\<lambda>rvs.
     bind (as_list oi) (\<lambda>ois.
     bind (as_list sp) (\<lambda>sps.
     bind (as_list sv) (\<lambda>svs.
     Inr \<lparr>other_issues = ois, suspect_projects = sps, suspect_versions = svs,
          unmapped_scans = um, reviewed_projects = rps, reviewed_versions = rvs\<rparr>))))))))))))"

text \<open>
  \<^verbatim>\<open>__init__\<close>: \<open>mode\<close> is the keyword argument, \<open>file\<close> the document in the checkpoint
  file (\<open>None\<close> when there is no file).
\<close>

definition init :: "string \<Rightarrow> val option \<Rightarrow> error + state" where
  "init mode file =
     (if mode = ''new'' then Inr new_state
      else (case file of None \<Rightarrow> Inl FileNotFoundError | Some sage_data \<Rightarrow> load_state sage_data))"

text \<open>
  \<^verbatim>\<open>_signal_handler\<close>: the document it writes and the exception it raises in the frame
  the signal interrupted.
\<close>

definition signal_handler :: "hub \<Rightarrow> state \<Rightarrow> val \<times> error" where
  "signal_handler h s = (write_results h s, OSError ''Interruped'')"

section \<open>The classifiers and the engine\<close>

text \<open>
  The guard on a paged answer in \<^verbatim>\<open>analyze_version\<close> and \<^verbatim>\<open>analyze_project\<close>:
  \<^verbatim>\<open>r['items'] if r and 'items' in r else []\<close>.
\<close>

definition guarded_items :: "val \<Rightarrow> error + val" where
  "guarded_items r =
     (if py_truthy r
      then bind (py_in ''items'' r) (\<lambda>b. if b then subscript r ''items'' else Inr (VList []))
      else Inr (VList []))"

text \<open>The line break and indentation inside the triple-quoted message templates.\<close>

definition indent5 :: string where
  "indent5 = [CHR 0x0A, CHR 0x09, CHR 0x09, CHR 0x09, CHR 0x09, CHR 0x09]"

definition indent4 :: string where
  "indent4 = [CHR 0x0A, CHR 0x09, CHR 0x09, CHR 0x09, CHR 0x09]"

definition zero_scans_message :: "string \<Rightarrow> string \<Rightarrow> string" where
  "zero_scans_message project_name version_name =
     ''Project '' @ project_name @ '', version '' @ version_name
       @ '' has 0 scans. Should it be removed?''"

definition many_scans_message :: "config \<Rightarrow> string \<Rightarrow> string \<Rightarrow> int \<Rightarrow> string" where
  "many_scans_message cfg project_name version_name num_scans =
     remove_white_space
       (''Project '' @ project_name @ '', version '' @ version_name @ '' has ''
        @ show_int num_scans @ '' scans which is greater than '' @ indent5
        @ ''the maximum recommended versions of '' @ show_int (max_versions_per_project cfg)
        @ ''. Review the scans to make sure there are not'' @ indent5
        @ ''redundant scans all mapped to this project version. Look for scans with similar names''
        @ indent5
        @ ''or sizes. If redundant scans are found, you should delete them and update the scanning''
        @ indent5
        @ ''setup to use --detect.code.location.name with hub-detect to override scan names and ''
        @ indent5
        @ ''delete redundant scans.'')"

text \<open>
  The two list comprehensions of \<^verbatim>\<open>analyze_version\<close>: the summaries of the scans whose
  name ends with \<open>suf\<close>.
\<close>

fun scan_infos :: "string \<Rightarrow> string \<Rightarrow> string \<Rightarrow> val list \<Rightarrow> error + val list" where
  "scan_infos suf project_name version_name [] = Inr []"
| "scan_infos suf project_name version_name (s # ss) =
     (case subscript s ''name'' of
        Inl e \<Rightarrow> Inl e
      | Inr n \<Rightarrow>
         (case py_endswith n suf of
            Inl e \<Rightarrow> Inl e
          | Inr b \<Rightarrow>
             if b then
               (case copy_common_attributes s
                       [(''project_name'', VStr project_name), (''version_name'', VStr version_name)] of
                  Inl e \<Rightarrow> Inl e
                | Inr info \<Rightarrow>
                   (case scan_infos suf project_name version_name ss of
                      Inl e \<Rightarrow> Inl e
                    | Inr rest \<Rightarrow> Inr (VDict info # rest)))
             else scan_infos suf project_name version_name ss))"

definition version_key :: "string \<Rightarrow> string \<Rightarrow> string" where
  "version_key project_name version_name = project_name @ '':'' @ version_name"

text \<open>
  The version classifier: the \<^verbatim>\<open>else\<close> branch of \<^verbatim>\<open>analyze_version\<close> from the
  guard on the fetched scans up to the append to \<^verbatim>\<open>suspect_versions\<close>.
\<close>

definition classify_version ::
  "config \<Rightarrow> string \<Rightarrow> string \<Rightarrow> val \<Rightarrow> val \<Rightarrow> state \<Rightarrow> error + state" where
  "classify_version cfg project_name version_name version scans s =
     bind (guarded_items scans) (\<lambda>items.
     bind (py_iter items) (\<lambda>scan_objs.
     let num_scans = int (length scan_objs) in
     bind (copy_common_attributes version [(''project_name'', VStr project_name)]) (\<lambda>version_info.
     if num_scans = 0 then
       Inr (s\<lparr>suspect_versions := suspect_versions s @
             [VDict (AList.update ''message''
                       (VStr (zero_scans_message project_name version_name))
                       version_info)]\<rparr>)
     else if num_scans > max_scans_per_version cfg then
       bind (scan_infos ''scan'' project_name version_name scan_objs) (\<lambda>signature_scan_info.
       bind (scan_infos ''bom'' project_name version_name scan_objs) (\<lambda>bom_scan_info.
       Inr (s\<lparr>suspect_versions := suspect_versions s @
             [VDict (AList.update ''bom_scan_info'' (VList bom_scan_info)
                    (AList.update ''signature_scan_info'' (VList signature_scan_info)
                    (AList.update ''message''
                       (VStr (many_scans_message cfg project_name version_name num_scans))
                       version_info)))]\<rparr>)))
     else Inr s)))"

text \<open>
  \<^verbatim>\<open>analyze_version\<close>. The bare \<^verbatim>\<open>except\<close> around the fetch catches every exception
  and leaves the state as it is; the classifier and the ledger update are the \<^verbatim>\<open>else\<close>
  branch.
\<close>

definition analyze_version :: "config \<Rightarrow> hub \<Rightarrow> string \<Rightarrow> val \<Rightarrow> state \<Rightarrow> error + state" where
  "analyze_version cfg h project_name version s =
     bind (subscript version ''versionName'') (\<lambda>vn.
     bind (as_name vn) (\<lambda>version_name.
     case get_version_codelocations h version of
       Inl e \<Rightarrow> Inr s
     | Inr scans \<Rightarrow>
         bind (classify_version cfg project_name version_name version scans s) (\<lambda>s'.
         Inr (s'\<lparr>reviewed_versions :=
                   List.insert (version_key project_name version_name) (reviewed_versions s')\<rparr>))))"

text \<open>The loop over the versions of a project in \<^verbatim>\<open>analyze_project\<close>.\<close>

fun analyze_versions :: "config \<Rightarrow> hub \<Rightarrow> string \<Rightarrow> val list \<Rightarrow> state \<Rightarrow> error + state" where
  "analyze_versions cfg h project_name [] s = Inr s"
| "analyze_versions cfg h project_name (version # versions) s =
     (case subscript version ''versionName'' of
        Inl e \<Rightarrow> Inl e
      | Inr vn \<Rightarrow>
         (case as_name vn of
            Inl e \<Rightarrow> Inl e
          | Inr version_name \<Rightarrow>
             (case (if version_key project_name version_name \<in> set (reviewed_versions s)
                    then Inr s
                    else analyze_version cfg h project_name version s) of
                Inl e \<Rightarrow> Inl e
              | Inr s' \<Rightarrow> analyze_versions cfg h project_name versions s')))"

text \<open>\<^verbatim>\<open>[v for v in versions['items'] if v['phase'] == ph]\<close>.\<close>

fun versions_in_phase :: "string \<Rightarrow> val list \<Rightarrow> error + val list" where
  "versions_in_phase ph [] = Inr []"
| "versions_in_phase ph (v # vs) =
     (case subscript v ''phase'' of
        Inl e \<Rightarrow> Inl e
      | Inr p \<Rightarrow>
         (case versions_in_phase ph vs of
            Inl e \<Rightarrow> Inl e
          | Inr rest \<Rightarrow> Inr (if p = VStr ph then v # rest else rest)))"

definition zero_versions_message :: "string \<Rightarrow> string" where
  "zero_versions_message project_name =
     ''Project '' @ project_name @ '' has 0 versions. Should it be removed?''"

definition many_versions_message :: "config \<Rightarrow> string \<Rightarrow> int \<Rightarrow> bool \<Rightarrow> bool \<Rightarrow> string" where
  "many_versions_message cfg project_name num_versions no_released no_archived =
     remove_white_space
       (''Project '' @ project_name @ '' has '' @ show_int num_versions
        @ '' versions which is greater than the recommend maximum of ''
        @ show_int (max_versions_per_project cfg) @ ''.''
        @ (if no_released then ''  There are 0 versions that have been released.'' else [])
        @ (if no_archived then ''  There are 0 versions that have been archived.'' else [])
        @ ''You should review these versions and remove extraneous ones, and their scans, ''
        @ indent4
        @ ''to reclaim space and reduce clutter. Typically there should be one version per development ''
        @ indent4
        @ ''branch, and one version per release.  When new vulnerabilities are published you want''
        @ indent4
        @ ''to be able to quickly identify which projects are affected and take action.''
        @ indent4
        @ ''Keeping a large number of un-released versions in the system will make that difficult.''
        @ indent4
        @ ''And accruing a large number of versions per project can lead to serious performance degradation.''
        @ indent4
        @ ''Look at https://github.com/blackducksoftware/hub-rest-api-python/tree/master/examples for python examples''
        @ indent4
        @ ''for finding/deleting/removing versions and their scans'')"

text \<open>
  The project classifier: the \<^verbatim>\<open>else\<close> branch of \<^verbatim>\<open>analyze_project\<close> from
  \<^verbatim>\<open>project_info\<close> up to the append to \<^verbatim>\<open>suspect_projects\<close>; \<open>versions\<close> is the
  fetched answer and \<open>version_objs\<close> its guarded item list.
\<close>

definition classify_project ::
  "config \<Rightarrow> string \<Rightarrow> val \<Rightarrow> val \<Rightarrow> val list \<Rightarrow> state \<Rightarrow> error + state" where
  "classify_project cfg project_name project versions version_objs s =
     (let num_versions = int (length version_objs) in
      bind (copy_common_attributes project []) (\<lambda>project_info.
      if num_versions = 0 then
        Inr (s\<lparr>suspect_projects := suspect_projects s @
              [VDict (AList.update ''message''
                        (VStr (zero_versions_message project_name)) project_info)]\<rparr>)
      else if num_versions > max_versions_per_project cfg then
        bind (subscript versions ''items'') (\<lambda>items'.
        bind (py_iter items') (\<lambda>vs.
        bind (versions_in_phase ''RELEASED'' vs) (\<lambda>released_versions.
        bind (versions_in_phase ''ARCHIVED'' vs) (\<lambda>archived_versions.
        Inr (s\<lparr>suspect_projects := suspect_projects s @
              [VDict (AList.update ''message''
                        (VStr (many_versions_message cfg project_name num_versions
                                 (length released_versions = 0)
                                 (length archived_versions = 0)))
                        project_info)]\<rparr>)))))
      else Inr s))"

text \<open>
  \<^verbatim>\<open>analyze_project\<close>. The project's name goes into the ledger at the end of the
  \<^verbatim>\<open>else\<close> branch, after the loop over the versions.
\<close>

definition analyze_project :: "config \<Rightarrow> hub \<Rightarrow> val \<Rightarrow> state \<Rightarrow> error + state" where
  "analyze_project cfg h project s =
     bind (subscript project ''name'') (\<lambda>pn.
     bind (as_name pn) (\<lambda>project_name.
     case get_project_versions h project of
       Inl e \<Rightarrow> Inr s
     | Inr versions \<Rightarrow>
         bind (guarded_items versions) (\<lambda>items.
         bind (py_iter items) (\<lambda>version_objs.
         bind (classify_project cfg project_name project versions version_objs s) (\<lambda>s1.
         bind (analyze_versions cfg h project_name version_objs s1) (\<lambda>s2.
         Inr (s2\<lparr>reviewed_projects := List.insert project_name (reviewed_projects s2)\<rparr>)))))))"

text \<open>\<^verbatim>\<open>[self._copy_common_attributes(s) for s in unmapped_scans]\<close>.\<close>

fun copy_all :: "val list \<Rightarrow> error + val list" where
  "copy_all [] = Inr []"
| "copy_all (s # ss) =
     (case copy_common_attributes s [] of
        Inl e \<Rightarrow> Inl e
      | Inr info \<Rightarrow> (case copy_all ss of Inl e \<Rightarrow> Inl e | Inr rest \<Rightarrow> Inr (VDict info # rest)))"

definition get_unmapped_scans :: "hub \<Rightarrow> error + val list" where
  "get_unmapped_scans h =
     bind (get_codelocations_unmapped h) (\<lambda>r.
     bind (subscript r ''items'') (\<lambda>items.
     bind (py_iter items) (\<lambda>scans. copy_all scans)))"

definition unmapped_message :: string where
  "unmapped_message = ''Unmapped scans represent scanning data that is not mapped to any project-version, and hence, they are potentially consuming space that should be reclaimed.''"

definition slow_message :: "config \<Rightarrow> clock \<Rightarrow> string" where
  "slow_message cfg clk =
     remove_white_space
       (''It took '' @ elapsed_repr clk
        @ '' seconds to retrieve all the project info which is greater '' @ indent4
        @ ''than the recommended max of '' @ show_int (max_time_to_retrieve_projects cfg)
        @ '' seconds'')"

text \<open>The loop over the projects in \<^verbatim>\<open>analyze\<close>.\<close>

fun analyze_projects :: "config \<Rightarrow> hub \<Rightarrow> val list \<Rightarrow> state \<Rightarrow> error + state" where
  "analyze_projects cfg h [] s = Inr s"
| "analyze_projects cfg h (project # projects) s =
     (case subscript project ''name'' of
        Inl e \<Rightarrow> Inl e
      | Inr pn \<Rightarrow>
         (case as_name pn of
            Inl e \<Rightarrow> Inl e
          | Inr project_name \<Rightarrow>
             (case (if project_name \<in> set (reviewed_projects s) then Inr s
                    else analyze_project cfg h project s) of
                Inl e \<Rightarrow> Inl e
              | Inr s' \<Rightarrow> analyze_projects cfg h projects s')))"

text \<open>
  \<^verbatim>\<open>analyze\<close>: the state at the end of the run and the document written. An exception
  that leaves \<^verbatim>\<open>analyze\<close> ends the process before anything is written.
\<close>

definition analyze :: "config \<Rightarrow> hub \<Rightarrow> clock \<Rightarrow> state \<Rightarrow> error + state \<times> val" where
  "analyze cfg h clk s =
     bind (get_projects h) (\<lambda>projects.
     bind (subscript projects ''items'') (\<lambda>items.
     bind (py_iter items) (\<lambda>project_objs.
     let s1 = (if elapsed clk > of_int (max_time_to_retrieve_projects cfg)
               then s\<lparr>other_issues := other_issues s @ [VStr (slow_message cfg clk)]\<rparr>
               else s) in
     bind (if unmapped_scans s1 = VDict [] then
             bind (get_unmapped_scans h) (\<lambda>scans.
             Inr (s1\<lparr>unmapped_scans :=
                       VDict [(''message'', VStr unmapped_message), (''scans'', VList scans)]\<rparr>))
           else Inr s1) (\<lambda>s2.
     bind (analyze_projects cfg h project_objs s2) (\<lambda>s3.
     Inr (s3, write_results h s3))))))"

section \<open>Records the classifiers accept\<close>

text \<open>
  The predicates in which the theorems below state their hypotheses. \<open>has_locator v\<close>: the
  record \<open>v\<close> carries \<^verbatim>\<open>_meta.href\<close>. \<open>name_endswith suf v\<close>: the record has a string
  \<^verbatim>\<open>name\<close> ending with \<open>suf\<close>. \<open>scan_record v\<close>: a scan with a string name and a
  locator. \<open>is_summary kwargs info v\<close>: \<open>info\<close> is the summary the attribute extractor
  gives for \<open>v\<close> with the overrides \<open>kwargs\<close>.
\<close>

definition has_locator :: "val \<Rightarrow> bool" where
  "has_locator v =
     (case subscript v ''_meta'' of
        Inl e \<Rightarrow> False
      | Inr meta \<Rightarrow> (case subscript meta ''href'' of Inl e \<Rightarrow> False | Inr href \<Rightarrow> True))"

definition name_endswith :: "string \<Rightarrow> val \<Rightarrow> bool" where
  "name_endswith suf v =
     (case subscript v ''name'' of Inr (VStr n) \<Rightarrow> endswith n suf | _ \<Rightarrow> False)"

definition scan_record :: "val \<Rightarrow> bool" where
  "scan_record v =
     (has_locator v \<and> (case subscript v ''name'' of Inr (VStr n) \<Rightarrow> True | _ \<Rightarrow> False))"

definition is_summary :: "(string \<times> val) list \<Rightarrow> val \<Rightarrow> val \<Rightarrow> bool" where
  "is_summary kwargs info v =
     (case info of VDict r \<Rightarrow> copy_common_attributes v kwargs = Inr r | _ \<Rightarrow> False)"

text \<open>A word: a string without whitespace.\<close>

definition no_space :: "string \<Rightarrow> bool" where
  "no_space w = list_all (\<lambda>c. \<not> is_space c) w"

section \<open>Example inventories\<close>

definition cfg_default :: config where
  "cfg_default = \<lparr>max_versions_per_project = 20, max_scans_per_version = 10,
     max_time_to_retrieve_projects = 60\<rparr>"

definition cfg_ex :: config where
  "cfg_ex = \<lparr>max_versions_per_project = 20, max_scans_per_version = 2,
     max_time_to_retrieve_projects = 60\<rparr>"

definition fast_clock :: clock where
  "fast_clock = \<lparr>elapsed = 1, elapsed_repr = ''1.0''\<rparr>"

definition slow_clock :: clock where
  "slow_clock = \<lparr>elapsed = 61, elapsed_repr = ''61.0''\<rparr>"

text \<open>A record with one string field \<open>k\<close> and a locator.\<close>

definition entity :: "string \<Rightarrow> string \<Rightarrow> string \<Rightarrow> val" where
  "entity k n url = VDict [(k, VStr n), (''_meta'', VDict [(''href'', VStr url)])]"

definition project_ex :: val where
  "project_ex = entity ''name'' ''p'' ''u/p''"

definition version_ex :: val where
  "version_ex = entity ''versionName'' ''v'' ''u/p/v''"

definition two_scans :: "val list" where
  "two_scans = [entity ''name'' ''foo-scan'' ''u/1'', entity ''name'' ''foo-bom'' ''u/2'']"

definition three_scans :: "val list" where
  "three_scans = [entity ''name'' ''foo-scan'' ''u/1'', entity ''name'' ''foo-bom'' ''u/2'',
     entity ''name'' ''other'' ''u/3'']"

text \<open>One project \<open>p\<close> with one version \<open>v\<close> and three scans; no unmapped scans.\<close>

definition hub_ex :: hub where
  "hub_ex = \<lparr>get_projects = Inr (VDict [(''items'', VList [project_ex])]),
     get_project_versions = (\<lambda>project. Inr (VDict [(''items'', VList [version_ex])])),
     get_version_codelocations = (\<lambda>version. Inr (VDict [(''items'', VList three_scans)])),
     get_codelocations_unmapped = Inr (VDict [(''items'', VList [])]),
     get_urlbase = ''https://hub''\<rparr>"

text \<open>The same inventory with two scans on the version.\<close>

definition hub_two :: hub where
  "hub_two = hub_ex\<lparr>get_version_codelocations :=
     (\<lambda>version. Inr (VDict [(''items'', VList two_scans)]))\<rparr>"

text \<open>The same inventory while the fetch of a version's scans fails.\<close>

definition hub_scan_fail :: hub where
  "hub_scan_fail = hub_ex\<lparr>get_version_codelocations :=
     (\<lambda>version. Inl (FetchError ''timeout''))\<rparr>"

text \<open>Paged answers without an \<^verbatim>\<open>items\<close> field.\<close>

definition hub_no_project_items :: hub where
  "hub_no_project_items = hub_ex\<lparr>get_projects := Inr (VDict [(''totalCount'', VInt 0)])\<rparr>"

definition hub_no_unmapped_items :: hub where
  "hub_no_unmapped_items =
     hub_ex\<lparr>get_codelocations_unmapped := Inr (VDict [(''totalCount'', VInt 0)])\<rparr>"

text \<open>An inventory without projects.\<close>

definition hub_empty :: hub where
  "hub_empty = \<lparr>get_projects = Inr (VDict [(''items'', VList [])]),
     get_project_versions = (\<lambda>project. Inr (VDict [])),
     get_version_codelocations = (\<lambda>version. Inr (VDict [])),
     get_codelocations_unmapped = Inr (VDict [(''items'', VList [])]),
     get_urlbase = ''https://hub''\<rparr>"

text \<open>
  Two projects \<open>p\<close> and \<open>q\<close> with the versions \<open>v1\<close> and \<open>v2\<close>. The interruption signal
  arrives while the scans of \<open>v1\<close> are being fetched: the handler runs and the exception
  \<open>exc\<close> it raises surfaces in that call.
\<close>

definition hub_interrupted :: "error \<Rightarrow> hub" where
  "hub_interrupted exc =
     \<lparr>get_projects = Inr (VDict [(''items'',
         VList [entity ''name'' ''p'' ''u/p'', entity ''name'' ''q'' ''u/q''])]),
      get_project_versions =
        (\<lambda>project. if project = entity ''name'' ''p'' ''u/p''
           then Inr (VDict [(''items'', VList [entity ''versionName'' ''v1'' ''u/p/v1''])])
           else Inr (VDict [(''items'', VList [entity ''versionName'' ''v2'' ''u/q/v2''])])),
      get_version_codelocations =
        (\<lambda>version. if version = entity ''versionName'' ''v1'' ''u/p/v1''
           then Inl exc
           else Inr (VDict [(''items'', VList [entity ''name'' ''x-scan'' ''u/4''])])),
      get_codelocations_unmapped = Inr (VDict [(''items'', VList [])]),
      get_urlbase = ''https://hub''\<rparr>"

text \<open>States the example runs end in.\<close>

definition no_unmapped :: val where
  "no_unmapped = VDict [(''message'', VStr unmapped_message), (''scans'', VList [])]"

definition slow_state1 :: state where
  "slow_state1 = new_state\<lparr>other_issues := [VStr (slow_message cfg_ex slow_clock)],
     unmapped_scans := no_unmapped\<rparr>"

definition slow_state2 :: state where
  "slow_state2 = slow_state1\<lparr>other_issues :=
     [VStr (slow_message cfg_ex slow_clock), VStr (slow_message cfg_ex slow_clock)]\<rparr>"

definition reviewed_ex :: state where
  "reviewed_ex = new_state\<lparr>unmapped_scans := no_unmapped, reviewed_projects := [''p''],
     reviewed_versions := [''p:v'']\<rparr>"

definition scan_fail_state :: state where
  "scan_fail_state = new_state\<lparr>unmapped_scans := no_unmapped, reviewed_projects := [''p'']\<rparr>"

definition interrupted_state :: state where
  "interrupted_state = new_state\<lparr>unmapped_scans := no_unmapped,
     reviewed_projects := [''q'', ''p''], reviewed_versions := [''q:v2'']\<rparr>"



section \<open>Basic lemmas\<close>

lemmas ex_defs = cfg_ex_def cfg_default_def fast_clock_def slow_clock_def three_scans_def
  two_scans_def project_ex_def version_ex_def hub_ex_def hub_two_def hub_scan_fail_def
  hub_no_project_items_def hub_no_unmapped_items_def hub_empty_def hub_interrupted_def
  no_unmapped_def entity_def new_state_def

lemmas engine_defs = analyze_def get_unmapped_scans_def analyze_project_def analyze_version_def
  classify_project_def classify_version_def guarded_items_def copy_common_attributes_def
  COMMON_ATTRIBUTES_def version_key_def

lemma bind_Inr [simp]: "bind (Inr x) f = f x"
  by (simp add: bind_def)

lemma bind_Inl [simp]: "bind (Inl e) f = Inl e"
  by (simp add: bind_def)

lemma bind_eq_Inr: "bind m f = Inr y \<longleftrightarrow> (\<exists>x. m = Inr x \<and> f x = Inr y)"
  by (cases m) simp_all

section \<open>Properties of the attribute extractor\<close>

lemma copy_attrs_dict:
  "\<exists>r. copy_attrs as (VDict obj) acc = Inr r \<and> map_of r = map_of acc ++ (map_of obj |` set as)"
proof (induction as arbitrary: acc)
  case Nil
  show ?case by simp
next
  case (Cons a as)
  show ?case
  proof (cases "map_of obj a")
    case None
    then have notin: "a \<notin> fst ` set obj" by (simp add: map_of_eq_None_iff)
    from Cons.IH [of acc] obtain r where r: "copy_attrs as (VDict obj) acc = Inr r"
      "map_of r = map_of acc ++ (map_of obj |` set as)" by blast
    have "map_of obj |` set (a # as) = map_of obj |` set as"
      using None by (auto simp: restrict_map_def fun_eq_iff)
    with r notin show ?thesis by simp
  next
    case (Some v)
    then have isin: "a \<in> fst ` set obj" by (metis map_of_eq_None_iff option.distinct(1))
    from Cons.IH [of "AList.update a v acc"] obtain r where
      r: "copy_attrs as (VDict obj) (AList.update a v acc) = Inr r"
      "map_of r = map_of (AList.update a v acc) ++ (map_of obj |` set as)" by blast
    have "(map_of acc)(a \<mapsto> v) ++ (map_of obj |` set as) = map_of acc ++ (map_of obj |` set (a # as))"
      using Some by (auto simp: restrict_map_def fun_eq_iff map_add_def split: option.splits)
    with r isin Some show ?thesis by (simp add: update_conv')
  qed
qed

lemma map_of_fold_update:
  "map_of (fold (\<lambda>kv. AList.update (fst kv) (snd kv)) kwargs al) = map_of al ++ map_of (rev kwargs)"
proof (induction kwargs arbitrary: al)
  case Nil
  show ?case by simp
next
  case (Cons kv kwargs)
  have step: "map_of (AList.update (fst kv) (snd kv) al) ++ map_of (rev kwargs)
        = map_of al ++ map_of (rev (kv # kwargs))"
    by (cases kv) (auto simp: update_conv' fun_eq_iff map_add_def split: option.splits)
  have "map_of (fold (\<lambda>kv. AList.update (fst kv) (snd kv)) (kv # kwargs) al)
        = map_of (fold (\<lambda>kv. AList.update (fst kv) (snd kv)) kwargs
                    (AList.update (fst kv) (snd kv) al))"
    by simp
  also have "\<dots> = map_of (AList.update (fst kv) (snd kv) al) ++ map_of (rev kwargs)"
    by (rule Cons.IH)
  finally show ?case using step by simp
qed

lemma has_locatorE:
  assumes "has_locator v"
  obtains kvs meta href where "v = VDict kvs" "map_of kvs ''_meta'' = Some meta"
    "subscript meta ''href'' = Inr href"
proof -
  from assms obtain meta href where m: "subscript v ''_meta'' = Inr meta"
    and h: "subscript meta ''href'' = Inr href"
    by (auto simp: has_locator_def split: sum.splits)
  from m obtain kvs where "v = VDict kvs" "map_of kvs ''_meta'' = Some meta"
    by (cases v) (auto split: option.splits)
  with h that show thesis by blast
qed

lemma copy_common_attributes_dict:
  assumes "map_of obj ''_meta'' = Some meta" and "subscript meta ''href'' = Inr href"
  shows "\<exists>r. copy_common_attributes (VDict obj) kwargs = Inr r \<and>
             map_of r = (map_of obj |` set COMMON_ATTRIBUTES) ++ [''url'' \<mapsto> href]
                          ++ map_of (rev kwargs)"
proof -
  from copy_attrs_dict [of COMMON_ATTRIBUTES obj "[]"] obtain c where
    c: "copy_attrs COMMON_ATTRIBUTES (VDict obj) [] = Inr c"
       "map_of c = map_of obj |` set COMMON_ATTRIBUTES" by auto
  have "map_of (AList.update ''url'' href c)
          = (map_of obj |` set COMMON_ATTRIBUTES) ++ [''url'' \<mapsto> href]"
    using c(2) by (simp add: update_conv')
  then show ?thesis
    using c(1) assms by (simp add: copy_common_attributes_def map_of_fold_update)
qed

lemma copy_common_attributes_ok:
  assumes "has_locator v"
  shows "\<exists>r. copy_common_attributes v kwargs = Inr r"
  using assms copy_common_attributes_dict by (elim has_locatorE) blast




section \<open>Properties of the checkpoint store\<close>

lemma hashable_strs_VStr: "hashable_strs (map VStr xs) = Inr xs"
  by (induction xs) simp_all

lemma py_set_VStr: "py_set (VList (map VStr xs)) = Inr (remdups xs)"
  by (simp add: py_set_def hashable_strs_VStr)

lemma load_state_write_results:
  "load_state (write_results h s) =
     Inr (s\<lparr>reviewed_projects := remdups (reviewed_projects s),
            reviewed_versions := remdups (reviewed_versions s)\<rparr>)"
  by (simp add: load_state_def write_results_def py_set_VStr)

text \<open>
  C8. Constructing the engine in resume mode on the document \<^verbatim>\<open>_write_results\<close> wrote
  gives back the findings lists and the unmapped-scan snapshot as they were, and the two
  ledger sets with the same elements.
\<close>

theorem resume_restores_state:
  "\<exists>s'. init ''resume'' (Some (write_results h s)) = Inr s'
     \<and> other_issues s' = other_issues s
     \<and> suspect_projects s' = suspect_projects s
     \<and> suspect_versions s' = suspect_versions s
     \<and> unmapped_scans s' = unmapped_scans s
     \<and> set (reviewed_projects s') = set (reviewed_projects s)
     \<and> set (reviewed_versions s') = set (reviewed_versions s)"
  by (simp add: init_def load_state_write_results)

section \<open>What a step of the engine changes\<close>

lemma as_name_eq_Inr: "as_name v = Inr n \<longleftrightarrow> v = VStr n"
  by (cases v) auto

lemma classify_version_frame:
  assumes "classify_version cfg pn vn v scans s = Inr s1"
  shows "\<exists>fs. s1 = s\<lparr>suspect_versions := suspect_versions s @ fs\<rparr>"
proof -
  from assms obtain items scan_objs vi where
    body: "(if int (length scan_objs) = 0 then
       Inr (s\<lparr>suspect_versions := suspect_versions s @
             [VDict (AList.update ''message'' (VStr (zero_scans_message pn vn)) vi)]\<rparr>)
     else if int (length scan_objs) > max_scans_per_version cfg then
       bind (scan_infos ''scan'' pn vn scan_objs) (\<lambda>signature_scan_info.
       bind (scan_infos ''bom'' pn vn scan_objs) (\<lambda>bom_scan_info.
       Inr (s\<lparr>suspect_versions := suspect_versions s @
             [VDict (AList.update ''bom_scan_info'' (VList bom_scan_info)
                    (AList.update ''signature_scan_info'' (VList signature_scan_info)
                    (AList.update ''message''
                       (VStr (many_scans_message cfg pn vn (int (length scan_objs))))
                       vi)))]\<rparr>)))
     else Inr s) = Inr s1"
    unfolding classify_version_def Let_def bind_eq_Inr by blast
  consider (zero) "int (length scan_objs) = 0"
    | (many) "int (length scan_objs) \<noteq> 0" "int (length scan_objs) > max_scans_per_version cfg"
    | (few) "int (length scan_objs) \<noteq> 0" "\<not> int (length scan_objs) > max_scans_per_version cfg"
    by blast
  then show ?thesis
  proof cases
    case zero
    with body have "s1 = s\<lparr>suspect_versions := suspect_versions s @
             [VDict (AList.update ''message'' (VStr (zero_scans_message pn vn)) vi)]\<rparr>"
      by simp
    then show ?thesis by blast
  next
    case many
    with body obtain sig bom where "s1 = s\<lparr>suspect_versions := suspect_versions s @
             [VDict (AList.update ''bom_scan_info'' (VList bom)
                    (AList.update ''signature_scan_info'' (VList sig)
                    (AList.update ''message''
                       (VStr (many_scans_message cfg pn vn (int (length scan_objs))))
                       vi)))]\<rparr>"
      by (auto simp: bind_eq_Inr)
    then show ?thesis by blast
  next
    case few
    with body have "s1 = s" by simp
    then have "s1 = s\<lparr>suspect_versions := suspect_versions s @ []\<rparr>" by simp
    then show ?thesis by blast
  qed
qed

lemma analyze_version_cases:
  assumes "analyze_version cfg h pn v s = Inr s'"
  obtains (failed) vn e where "subscript v ''versionName'' = Inr (VStr vn)"
      "get_version_codelocations h v = Inl e" "s' = s"
  | (reviewed) vn scans s1 where "subscript v ''versionName'' = Inr (VStr vn)"
      "get_version_codelocations h v = Inr scans"
      "classify_version cfg pn vn v scans s = Inr s1"
      "s' = s1\<lparr>reviewed_versions := List.insert (version_key pn vn) (reviewed_versions s1)\<rparr>"
proof -
  from assms obtain vn where vn: "subscript v ''versionName'' = Inr (VStr vn)"
    and body: "(case get_version_codelocations h v of
       Inl e \<Rightarrow> Inr s
     | Inr scans \<Rightarrow>
         bind (classify_version cfg pn vn v scans s) (\<lambda>s'.
         Inr (s'\<lparr>reviewed_versions :=
                   List.insert (version_key pn vn) (reviewed_versions s')\<rparr>))) = Inr s'"
    unfolding analyze_version_def bind_eq_Inr as_name_eq_Inr by blast
  show thesis
  proof (cases "get_version_codelocations h v")
    case (Inl e)
    with body have "s' = s" by simp
    with vn Inl show thesis by (rule failed)
  next
    case (Inr scans)
    with body obtain s1 where "classify_version cfg pn vn v scans s = Inr s1"
      "s' = s1\<lparr>reviewed_versions := List.insert (version_key pn vn) (reviewed_versions s1)\<rparr>"
      by (auto simp: bind_eq_Inr)
    with vn Inr show thesis by (rule reviewed)
  qed
qed

lemma analyze_version_frame:
  assumes "analyze_version cfg h pn v s = Inr s'"
  shows "set (reviewed_versions s) \<subseteq> set (reviewed_versions s')
       \<and> reviewed_projects s' = reviewed_projects s
       \<and> other_issues s' = other_issues s
       \<and> suspect_projects s' = suspect_projects s
       \<and> unmapped_scans s' = unmapped_scans s
       \<and> (\<exists>fs. suspect_versions s' = suspect_versions s @ fs)"
  using assms
proof (cases rule: analyze_version_cases)
  case (failed vn e)
  then show ?thesis by simp
next
  case (reviewed vn scans s1)
  from classify_version_frame [OF reviewed(3)] obtain fs where
    "s1 = s\<lparr>suspect_versions := suspect_versions s @ fs\<rparr>" ..
  with reviewed(4) show ?thesis by auto
qed


lemma analyze_versions_frame:
  assumes "analyze_versions cfg h pn vs s = Inr s'"
  shows "set (reviewed_versions s) \<subseteq> set (reviewed_versions s')
       \<and> reviewed_projects s' = reviewed_projects s
       \<and> other_issues s' = other_issues s
       \<and> suspect_projects s' = suspect_projects s
       \<and> unmapped_scans s' = unmapped_scans s
       \<and> (\<exists>fs. suspect_versions s' = suspect_versions s @ fs)"
  using assms
proof (induction vs arbitrary: s)
  case Nil
  then show ?case by simp
next
  case (Cons v vs)
  from Cons.prems obtain vn s1 where
    vn: "subscript v ''versionName'' = Inr (VStr vn)"
    and step: "(if version_key pn vn \<in> set (reviewed_versions s) then Inr s
                else analyze_version cfg h pn v s) = Inr s1"
    and rest: "analyze_versions cfg h pn vs s1 = Inr s'"
    by (auto simp: as_name_eq_Inr split: sum.splits)
  have one: "set (reviewed_versions s) \<subseteq> set (reviewed_versions s1)
       \<and> reviewed_projects s1 = reviewed_projects s
       \<and> other_issues s1 = other_issues s
       \<and> suspect_projects s1 = suspect_projects s
       \<and> unmapped_scans s1 = unmapped_scans s
       \<and> (\<exists>fs. suspect_versions s1 = suspect_versions s @ fs)"
  proof (cases "version_key pn vn \<in> set (reviewed_versions s)")
    case True
    with step show ?thesis by simp
  next
    case False
    with step show ?thesis using analyze_version_frame by simp
  qed
  from Cons.IH [OF rest] one show ?case by auto
qed


lemma classify_project_frame:
  assumes "classify_project cfg pn p versions vos s = Inr s1"
  shows "\<exists>fs. s1 = s\<lparr>suspect_projects := suspect_projects s @ fs\<rparr>"
proof -
  from assms obtain pinfo where
    body: "(if int (length vos) = 0 then
        Inr (s\<lparr>suspect_projects := suspect_projects s @
              [VDict (AList.update ''message''
                        (VStr (zero_versions_message pn)) pinfo)]\<rparr>)
      else if int (length vos) > max_versions_per_project cfg then
        bind (subscript versions ''items'') (\<lambda>items'.
        bind (py_iter items') (\<lambda>vs.
        bind (versions_in_phase ''RELEASED'' vs) (\<lambda>released_versions.
        bind (versions_in_phase ''ARCHIVED'' vs) (\<lambda>archived_versions.
        Inr (s\<lparr>suspect_projects := suspect_projects s @
              [VDict (AList.update ''message''
                        (VStr (many_versions_message cfg pn (int (length vos))
                                 (length released_versions = 0)
                                 (length archived_versions = 0)))
                        pinfo)]\<rparr>)))))
      else Inr s) = Inr s1"
    unfolding classify_project_def Let_def bind_eq_Inr by blast
  consider (zero) "int (length vos) = 0"
    | (many) "int (length vos) \<noteq> 0" "int (length vos) > max_versions_per_project cfg"
    | (few) "int (length vos) \<noteq> 0" "\<not> int (length vos) > max_versions_per_project cfg"
    by blast
  then show ?thesis
  proof cases
    case zero
    with body have "s1 = s\<lparr>suspect_projects := suspect_projects s @
              [VDict (AList.update ''message'' (VStr (zero_versions_message pn)) pinfo)]\<rparr>"
      by simp
    then show ?thesis by blast
  next
    case many
    with body obtain rel arch where "s1 = s\<lparr>suspect_projects := suspect_projects s @
              [VDict (AList.update ''message''
                        (VStr (many_versions_message cfg pn (int (length vos))
                                 (length (rel :: val list) = 0) (length (arch :: val list) = 0)))
                        pinfo)]\<rparr>"
      by (auto simp: bind_eq_Inr)
    then show ?thesis by blast
  next
    case few
    with body have "s1 = s" by simp
    then have "s1 = s\<lparr>suspect_projects := suspect_projects s @ []\<rparr>" by simp
    then show ?thesis by blast
  qed
qed

lemma analyze_project_cases:
  assumes "analyze_project cfg h p s = Inr s'"
  obtains (failed) pn e where "subscript p ''name'' = Inr (VStr pn)"
      "get_project_versions h p = Inl e" "s' = s"
  | (processed) pn versions items vos s1 s2 where "subscript p ''name'' = Inr (VStr pn)"
      "get_project_versions h p = Inr versions"
      "guarded_items versions = Inr items" "py_iter items = Inr vos"
      "classify_project cfg pn p versions vos s = Inr s1"
      "analyze_versions cfg h pn vos s1 = Inr s2"
      "s' = s2\<lparr>reviewed_projects := List.insert pn (reviewed_projects s2)\<rparr>"
proof -
  from assms obtain pn where pn: "subscript p ''name'' = Inr (VStr pn)"
    and body: "(case get_project_versions h p of
       Inl e \<Rightarrow> Inr s
     | Inr versions \<Rightarrow>
         bind (guarded_items versions) (\<lambda>items.
         bind (py_iter items) (\<lambda>version_objs.
         bind (classify_project cfg pn p versions version_objs s) (\<lambda>s1.
         bind (analyze_versions cfg h pn version_objs s1) (\<lambda>s2.
         Inr (s2\<lparr>reviewed_projects := List.insert pn (reviewed_projects s2)\<rparr>)))))) = Inr s'"
    unfolding analyze_project_def bind_eq_Inr as_name_eq_Inr by blast
  show thesis
  proof (cases "get_project_versions h p")
    case (Inl e)
    with body have "s' = s" by simp
    with pn Inl show thesis by (rule failed)
  next
    case (Inr versions)
    with body obtain items vos s1 s2 where
      "guarded_items versions = Inr items" "py_iter items = Inr vos"
      "classify_project cfg pn p versions vos s = Inr s1"
      "analyze_versions cfg h pn vos s1 = Inr s2"
      "s' = s2\<lparr>reviewed_projects := List.insert pn (reviewed_projects s2)\<rparr>"
      by (auto simp: bind_eq_Inr)
    with pn Inr show thesis by (rule processed)
  qed
qed

lemma analyze_project_frame:
  assumes "analyze_project cfg h p s = Inr s'"
  shows "set (reviewed_projects s) \<subseteq> set (reviewed_projects s')
       \<and> set (reviewed_versions s) \<subseteq> set (reviewed_versions s')
       \<and> other_issues s' = other_issues s
       \<and> unmapped_scans s' = unmapped_scans s
       \<and> (\<exists>fs. suspect_projects s' = suspect_projects s @ fs)
       \<and> (\<exists>fs. suspect_versions s' = suspect_versions s @ fs)"
  using assms
proof (cases rule: analyze_project_cases)
  case (failed pn e)
  then show ?thesis by simp
next
  case (processed pn versions items vos s1 s2)
  from classify_project_frame [OF processed(5)] obtain fs where
    s1: "s1 = s\<lparr>suspect_projects := suspect_projects s @ fs\<rparr>" ..
  from analyze_versions_frame [OF processed(6)] s1 processed(7) show ?thesis
    by auto
qed

lemma analyze_project_outcome:
  assumes "analyze_project cfg h p s = Inr s'"
  shows "\<exists>pn. subscript p ''name'' = Inr (VStr pn) \<and>
           (pn \<in> set (reviewed_projects s') \<or> (\<exists>e. get_project_versions h p = Inl e))"
  using assms
  by (cases rule: analyze_project_cases) auto

lemma analyze_projects_step:
  assumes "analyze_projects cfg h (p # ps) s = Inr s'"
  obtains pn s1 where "subscript p ''name'' = Inr (VStr pn)"
    "(if pn \<in> set (reviewed_projects s) then Inr s else analyze_project cfg h p s) = Inr s1"
    "analyze_projects cfg h ps s1 = Inr s'"
  using assms by (auto simp: as_name_eq_Inr split: sum.splits)

lemma analyze_projects_frame:
  assumes "analyze_projects cfg h ps s = Inr s'"
  shows "set (reviewed_projects s) \<subseteq> set (reviewed_projects s')
       \<and> set (reviewed_versions s) \<subseteq> set (reviewed_versions s')
       \<and> other_issues s' = other_issues s
       \<and> unmapped_scans s' = unmapped_scans s
       \<and> (\<exists>fs. suspect_projects s' = suspect_projects s @ fs)
       \<and> (\<exists>fs. suspect_versions s' = suspect_versions s @ fs)"
  using assms
proof (induction ps arbitrary: s)
  case Nil
  then show ?case by simp
next
  case (Cons p ps)
  from Cons.prems obtain pn s1 where
    pn: "subscript p ''name'' = Inr (VStr pn)"
    and step: "(if pn \<in> set (reviewed_projects s) then Inr s
                else analyze_project cfg h p s) = Inr s1"
    and rest: "analyze_projects cfg h ps s1 = Inr s'"
    by (rule analyze_projects_step)
  have one: "set (reviewed_projects s) \<subseteq> set (reviewed_projects s1)
       \<and> set (reviewed_versions s) \<subseteq> set (reviewed_versions s1)
       \<and> other_issues s1 = other_issues s
       \<and> unmapped_scans s1 = unmapped_scans s
       \<and> (\<exists>fs. suspect_projects s1 = suspect_projects s @ fs)
       \<and> (\<exists>fs. suspect_versions s1 = suspect_versions s @ fs)"
  proof (cases "pn \<in> set (reviewed_projects s)")
    case True
    with step show ?thesis by simp
  next
    case False
    with step show ?thesis using analyze_project_frame by simp
  qed
  from Cons.IH [OF rest] one show ?case by auto
qed

lemma analyze_projects_outcome:
  assumes "analyze_projects cfg h ps s = Inr s'"
  shows "\<forall>p\<in>set ps. \<exists>pn. subscript p ''name'' = Inr (VStr pn) \<and>
           (pn \<in> set (reviewed_projects s') \<or> (\<exists>e. get_project_versions h p = Inl e))"
  using assms
proof (induction ps arbitrary: s)
  case Nil
  then show ?case by simp
next
  case (Cons p ps)
  from Cons.prems obtain pn s1 where
    pn: "subscript p ''name'' = Inr (VStr pn)"
    and step: "(if pn \<in> set (reviewed_projects s) then Inr s
                else analyze_project cfg h p s) = Inr s1"
    and rest: "analyze_projects cfg h ps s1 = Inr s'"
    by (rule analyze_projects_step)
  have mono: "set (reviewed_projects s1) \<subseteq> set (reviewed_projects s')"
    using analyze_projects_frame [OF rest] by simp
  have "pn \<in> set (reviewed_projects s1) \<or> (\<exists>e. get_project_versions h p = Inl e)"
  proof (cases "pn \<in> set (reviewed_projects s)")
    case True
    with step show ?thesis by simp
  next
    case False
    with step have "analyze_project cfg h p s = Inr s1" by simp
    from analyze_project_outcome [OF this] pn show ?thesis by simp
  qed
  with mono pn have "\<exists>pn. subscript p ''name'' = Inr (VStr pn) \<and>
           (pn \<in> set (reviewed_projects s') \<or> (\<exists>e. get_project_versions h p = Inl e))"
    by auto
  with Cons.IH [OF rest] show ?case by simp
qed

text \<open>A pass over projects that are all reviewed already, or whose fetch fails, changes nothing.\<close>

lemma analyze_projects_skip:
  assumes "\<forall>p\<in>set ps. \<exists>pn. subscript p ''name'' = Inr (VStr pn) \<and>
           (pn \<in> set (reviewed_projects s) \<or> (\<exists>e. get_project_versions h p = Inl e))"
  shows "analyze_projects cfg h ps s = Inr s"
  using assms
proof (induction ps)
  case Nil
  show ?case by simp
next
  case (Cons p ps)
  from Cons.prems obtain pn where pn: "subscript p ''name'' = Inr (VStr pn)"
    and why: "pn \<in> set (reviewed_projects s) \<or> (\<exists>e. get_project_versions h p = Inl e)"
    by auto
  have "(if pn \<in> set (reviewed_projects s) then Inr s else analyze_project cfg h p s) = Inr s"
  proof (cases "pn \<in> set (reviewed_projects s)")
    case True
    then show ?thesis by simp
  next
    case False
    with why obtain e where "get_project_versions h p = Inl e" by blast
    with pn have "analyze_project cfg h p s = Inr s" by (simp add: analyze_project_def)
    with False show ?thesis by simp
  qed
  moreover from Cons have "analyze_projects cfg h ps s = Inr s" by simp
  ultimately show ?case using pn by simp
qed

lemma analyze_cases:
  assumes "analyze cfg h clk s = Inr (s', doc)"
  obtains projects items ps s2 where
    "get_projects h = Inr projects" "subscript projects ''items'' = Inr items"
    "py_iter items = Inr ps"
    "(let s1 = (if elapsed clk > of_int (max_time_to_retrieve_projects cfg)
               then s\<lparr>other_issues := other_issues s @ [VStr (slow_message cfg clk)]\<rparr>
               else s) in
      if unmapped_scans s1 = VDict [] then
             bind (get_unmapped_scans h) (\<lambda>scans.
             Inr (s1\<lparr>unmapped_scans :=
                       VDict [(''message'', VStr unmapped_message), (''scans'', VList scans)]\<rparr>))
           else Inr s1) = Inr s2"
    "analyze_projects cfg h ps s2 = Inr s'" "doc = write_results h s'"
  using assms unfolding analyze_def Let_def bind_eq_Inr by auto

lemma analyze_frame:
  assumes "analyze cfg h clk s = Inr (s', doc)"
  shows "set (reviewed_projects s) \<subseteq> set (reviewed_projects s')
       \<and> set (reviewed_versions s) \<subseteq> set (reviewed_versions s')
       \<and> unmapped_scans s' \<noteq> VDict []"
  using assms
proof (cases rule: analyze_cases)
  case (1 projects items ps s2)
  from 1(4) have "reviewed_projects s2 = reviewed_projects s
     \<and> reviewed_versions s2 = reviewed_versions s \<and> unmapped_scans s2 \<noteq> VDict []"
    by (auto simp: Let_def bind_eq_Inr split: if_splits)
  with analyze_projects_frame [OF 1(5)] show ?thesis by simp
qed

section \<open>The review ledger\<close>



section \<open>Resuming\<close>

text \<open>
  C2, as the code has it. When a run of \<^verbatim>\<open>analyze\<close> has completed, the engine
  constructed in resume mode on the document it wrote completes a second run on the same
  inventory with the same \<open>suspect_projects\<close>, \<open>suspect_versions\<close> and unmapped-scan
  snapshot and the same ledger sets. \<open>other_issues\<close> is unchanged when the project listing
  of the second run is within \<open>max_time_to_retrieve_projects\<close>, and gains the slow-retrieval
  message when it is not: \<^verbatim>\<open>analyze\<close> times the listing at every run.
\<close>

theorem resume_after_completed_run:
  assumes run1: "analyze cfg h clk1 s0 = Inr (s1, doc1)"
  shows "\<exists>s1' s2 doc2.
           init ''resume'' (Some doc1) = Inr s1'
         \<and> analyze cfg h clk2 s1' = Inr (s2, doc2)
         \<and> suspect_projects s2 = suspect_projects s1
         \<and> suspect_versions s2 = suspect_versions s1
         \<and> unmapped_scans s2 = unmapped_scans s1
         \<and> set (reviewed_projects s2) = set (reviewed_projects s1)
         \<and> set (reviewed_versions s2) = set (reviewed_versions s1)
         \<and> other_issues s2 =
             (if elapsed clk2 > of_int (max_time_to_retrieve_projects cfg)
              then other_issues s1 @ [VStr (slow_message cfg clk2)] else other_issues s1)"
  using run1
proof (cases rule: analyze_cases)
  case (1 projects items ps sb)
  define s1' where "s1' = s1\<lparr>reviewed_projects := remdups (reviewed_projects s1),
            reviewed_versions := remdups (reviewed_versions s1)\<rparr>"
  define sa where "sa = (if elapsed clk2 > of_int (max_time_to_retrieve_projects cfg)
               then s1'\<lparr>other_issues := other_issues s1' @ [VStr (slow_message cfg clk2)]\<rparr>
               else s1')"
  have load: "init ''resume'' (Some doc1) = Inr s1'"
    using 1(6) by (simp add: init_def load_state_write_results s1'_def)
  have nonempty: "unmapped_scans sa \<noteq> VDict []"
    using analyze_frame [OF run1] by (simp add: sa_def s1'_def)
  have "\<forall>p\<in>set ps. \<exists>pn. subscript p ''name'' = Inr (VStr pn) \<and>
           (pn \<in> set (reviewed_projects s1) \<or> (\<exists>e. get_project_versions h p = Inl e))"
    by (rule analyze_projects_outcome [OF 1(5)])
  moreover have "set (reviewed_projects sa) = set (reviewed_projects s1)"
    by (simp add: sa_def s1'_def)
  ultimately have "analyze_projects cfg h ps sa = Inr sa"
    by (intro analyze_projects_skip) simp
  with 1(1,2,3) nonempty have run2: "analyze cfg h clk2 s1' = Inr (sa, write_results h sa)"
    by (simp add: analyze_def Let_def sa_def [symmetric])
  have "suspect_projects sa = suspect_projects s1"
    "suspect_versions sa = suspect_versions s1"
    "unmapped_scans sa = unmapped_scans s1"
    "set (reviewed_projects sa) = set (reviewed_projects s1)"
    "set (reviewed_versions sa) = set (reviewed_versions s1)"
    "other_issues sa =
             (if elapsed clk2 > of_int (max_time_to_retrieve_projects cfg)
              then other_issues s1 @ [VStr (slow_message cfg clk2)] else other_issues s1)"
    by (simp_all add: sa_def s1'_def)
  with load run2 show ?thesis by blast
qed

text \<open>
  The theorem on the example inventory, the second run with a slow project listing.
\<close>

theorem resume_after_completed_run_witness:
  "analyze cfg_default hub_ex fast_clock new_state
     = Inr (reviewed_ex, write_results hub_ex reviewed_ex)
   \<and> (\<exists>s1' s2 doc2.
           init ''resume'' (Some (write_results hub_ex reviewed_ex)) = Inr s1'
         \<and> analyze cfg_default hub_ex slow_clock s1' = Inr (s2, doc2)
         \<and> suspect_projects s2 = suspect_projects reviewed_ex
         \<and> suspect_versions s2 = suspect_versions reviewed_ex
         \<and> unmapped_scans s2 = unmapped_scans reviewed_ex
         \<and> set (reviewed_projects s2) = set (reviewed_projects reviewed_ex)
         \<and> set (reviewed_versions s2) = set (reviewed_versions reviewed_ex)
         \<and> other_issues s2 =
             (if elapsed slow_clock > of_int (max_time_to_retrieve_projects cfg_default)
              then other_issues reviewed_ex @ [VStr (slow_message cfg_default slow_clock)]
              else other_issues reviewed_ex))"
proof -
  have run: "analyze cfg_default hub_ex fast_clock new_state
     = Inr (reviewed_ex, write_results hub_ex reviewed_ex)"
    by (simp add: engine_defs ex_defs reviewed_ex_def)
  from run resume_after_completed_run [OF run, of slow_clock] show ?thesis by (rule conjI)
qed

text \<open>
  C2, as stated, fails: on an inventory without projects whose listing takes 61 seconds
  with a limit of 60, the first run records one \<open>other_issues\<close> entry and the resumed
  run a second one.
\<close>

theorem resume_adds_other_issue:
  "analyze cfg_ex hub_empty slow_clock new_state
     = Inr (slow_state1, write_results hub_empty slow_state1)
   \<and> init ''resume'' (Some (write_results hub_empty slow_state1)) = Inr slow_state1
   \<and> analyze cfg_ex hub_empty slow_clock slow_state1
     = Inr (slow_state2, write_results hub_empty slow_state2)
   \<and> length (other_issues slow_state1) = 1 \<and> length (other_issues slow_state2) = 2"
  by (simp add: analyze_def get_unmapped_scans_def slow_state1_def slow_state2_def ex_defs
      init_def load_state_write_results)

text \<open>
  C1 does not hold of the code. The project \<open>p\<close> has one version whose scan fetch fails.
  \<^verbatim>\<open>analyze_version\<close> leaves the version out of \<open>reviewed_versions\<close>, but
  \<^verbatim>\<open>analyze_project\<close> adds \<open>p\<close> to \<open>reviewed_projects\<close> all the same. The resumed run,
  on an inventory whose fetch now succeeds, skips \<open>p\<close> and returns the state unchanged:
  the version is not retried. A run from the empty state on that inventory reviews the
  version and records one finding.
\<close>

theorem failed_version_not_retried:
  "analyze cfg_ex hub_scan_fail fast_clock new_state
     = Inr (scan_fail_state, write_results hub_scan_fail scan_fail_state)
   \<and> reviewed_projects scan_fail_state = [''p'']
   \<and> reviewed_versions scan_fail_state = []
   \<and> init ''resume'' (Some (write_results hub_scan_fail scan_fail_state)) = Inr scan_fail_state
   \<and> analyze cfg_ex hub_ex fast_clock scan_fail_state
     = Inr (scan_fail_state, write_results hub_ex scan_fail_state)
   \<and> map_sum id (\<lambda>r. (reviewed_versions (fst r), length (suspect_versions (fst r))))
        (analyze cfg_ex hub_ex fast_clock new_state) = Inr ([''p:v''], 1)"
  by (simp add: engine_defs ex_defs scan_fail_state_def init_def load_state_write_results)

section \<open>Paged answers without items\<close>

text \<open>
  C4 does not hold of the code. \<^verbatim>\<open>analyze\<close> reads \<^verbatim>\<open>projects['items']\<close> and
  \<^verbatim>\<open>get_unmapped_scans\<close> reads \<^verbatim>\<open>unmapped_scans['items']\<close> without the guard that
  \<^verbatim>\<open>analyze_project\<close> and \<^verbatim>\<open>analyze_version\<close> have: a project listing or an
  unmapped-scan listing without \<^verbatim>\<open>items\<close> raises \<^verbatim>\<open>KeyError\<close>, where the guard gives
  the empty list.
\<close>

theorem missing_items_raises:
  "analyze cfg_ex hub_no_project_items fast_clock new_state = Inl (KeyError ''items'')
   \<and> analyze cfg_ex hub_no_unmapped_items fast_clock new_state = Inl (KeyError ''items'')
   \<and> guarded_items (VDict [(''totalCount'', VInt 0)]) = Inr (VList [])"
  by (simp add: engine_defs ex_defs)

section \<open>Interruption\<close>

text \<open>
  C9 does not hold of the code. The handler writes the state and raises \<^verbatim>\<open>OSError\<close>,
  whatever the inventory client \<open>h\<close> and the state \<open>s\<close> at that moment. When the signal
  arrives inside the \<^verbatim>\<open>try\<close> of \<^verbatim>\<open>analyze_version\<close>, the bare \<^verbatim>\<open>except\<close> catches
  that exception: the run goes on, fetches the versions and scans of the next project,
  marks both projects reviewed and ends normally.
\<close>

theorem interrupt_during_fetch_swallowed:
  "fst (signal_handler h s) = write_results h s
   \<and> snd (signal_handler h s) = OSError ''Interruped''
   \<and> get_version_codelocations (hub_interrupted (snd (signal_handler h s)))
        (entity ''versionName'' ''v1'' ''u/p/v1'') = Inl (snd (signal_handler h s))
   \<and> analyze cfg_ex (hub_interrupted (snd (signal_handler h s))) fast_clock new_state
     = Inr (interrupted_state,
            write_results (hub_interrupted (snd (signal_handler h s))) interrupted_state)
   \<and> reviewed_projects interrupted_state = [''q'', ''p'']
   \<and> reviewed_versions interrupted_state = [''q:v2'']"
  by (simp add: engine_defs ex_defs interrupted_state_def signal_handler_def)

section \<open>Whitespace normalisation of the version message\<close>

lemma split_ws_word:
  "no_space u \<Longrightarrow> split_ws w (u @ rest) = split_ws (rev u @ w) rest"
  by (induction u arbitrary: w) (simp_all add: no_space_def)

lemma split_ws_break:
  "is_space c \<Longrightarrow> split_ws w (a @ c # rest) = split_ws w a @ split_ws [] rest"
  by (induction a arbitrary: w) simp_all

lemma join_sp_append:
  "xs \<noteq> [] \<Longrightarrow> ys \<noteq> [] \<Longrightarrow> join_sp (xs @ ys) = join_sp xs @ '' '' @ join_sp ys"
  by (induction xs rule: join_sp.induct) (auto simp: neq_Nil_conv)

lemma is_space_simps [simp]:
  "is_space CHR '' ''" "is_space (CHR 0x0A)" "is_space (CHR 0x09)"
  by (simp_all add: is_space_def)

lemma digit_not_space: "d < 10 \<Longrightarrow> \<not> is_space (digit_char d)"
  by (simp add: is_space_def digit_char_def)

lemma show_nat_no_space: "no_space (show_nat n) \<and> show_nat n \<noteq> []"
proof (induction n rule: show_nat.induct)
  case (1 n)
  show ?case
  proof (cases "n < 10")
    case True
    then show ?thesis
      by (subst (1 2) show_nat.simps) (simp add: no_space_def digit_not_space)
  next
    case False
    with 1 have "no_space (show_nat (n div 10))" by simp
    with False show ?thesis
      by (subst (1 2) show_nat.simps) (simp add: no_space_def digit_not_space)
  qed
qed

lemma show_int_no_space: "no_space (show_int i)" and show_int_nonempty: "show_int i \<noteq> []"
  using show_nat_no_space by (simp_all add: show_int_def no_space_def is_space_def)

lemma many_scans_message_text:
  "many_scans_message cfg pn vn n =
     remove_white_space (''Project '' @ pn @ '', version '' @ vn)
     @ '' has '' @ show_int n
     @ '' scans which is greater than the maximum recommended versions of ''
     @ show_int (max_versions_per_project cfg)
     @ ''. Review the scans to make sure there are not redundant scans all mapped to this project version. Look for scans with similar names or sizes. If redundant scans are found, you should delete them and update the scanning setup to use --detect.code.location.name with hub-detect to override scan names and delete redundant scans.''"
proof -
  define N where "N = show_int n"
  define M where "M = show_int (max_versions_per_project cfg)"
  define A where "A = ''Project '' @ pn @ '', version '' @ vn"
  define T where "T = ''has '' @ N @ '' scans which is greater than '' @ indent5
        @ ''the maximum recommended versions of '' @ M
        @ ''. Review the scans to make sure there are not'' @ indent5
        @ ''redundant scans all mapped to this project version. Look for scans with similar names''
        @ indent5
        @ ''or sizes. If redundant scans are found, you should delete them and update the scanning''
        @ indent5
        @ ''setup to use --detect.code.location.name with hub-detect to override scan names and ''
        @ indent5
        @ ''delete redundant scans.''"
  have N: "no_space N" "N \<noteq> []" and M: "no_space M" "M \<noteq> []"
    by (simp_all add: N_def M_def show_int_no_space show_int_nonempty)
  have wN: "\<And>w rest. split_ws w (N @ rest) = split_ws (rev N @ w) rest"
    and wM: "\<And>w rest. split_ws w (M @ rest) = split_ws (rev M @ w) rest"
    using N M by (simp_all add: split_ws_word)
  have A: "split_ws [] A \<noteq> []"
    by (simp add: A_def is_space_def)
  have T: "split_ws [] T = [''has'', N, ''scans'', ''which'', ''is'', ''greater'', ''than'',
      ''the'', ''maximum'', ''recommended'', ''versions'', ''of'', M @ ''.'', ''Review'', ''the'',
      ''scans'', ''to'', ''make'', ''sure'', ''there'', ''are'', ''not'', ''redundant'', ''scans'',
      ''all'', ''mapped'', ''to'', ''this'', ''project'', ''version.'', ''Look'', ''for'', ''scans'',
      ''with'', ''similar'', ''names'', ''or'', ''sizes.'', ''If'', ''redundant'', ''scans'', ''are'',
      ''found,'', ''you'', ''should'', ''delete'', ''them'', ''and'', ''update'', ''the'',
      ''scanning'', ''setup'', ''to'', ''use'', ''--detect.code.location.name'', ''with'',
      ''hub-detect'', ''to'', ''override'', ''scan'', ''names'', ''and'', ''delete'', ''redundant'',
      ''scans.'']"
    unfolding T_def indent5_def using N(2) M(2)
    by (simp add: wN wM is_space_def)
  have "many_scans_message cfg pn vn n = remove_white_space (A @ CHR '' '' # T)"
    by (simp add: many_scans_message_def A_def T_def N_def M_def)
  also have "\<dots> = join_sp (split_ws [] A @ split_ws [] T)"
    by (simp add: remove_white_space_def split_ws_break)
  also have "\<dots> = join_sp (split_ws [] A) @ '' '' @ join_sp (split_ws [] T)"
    using A by (intro join_sp_append) (simp_all add: T)
  finally show ?thesis
    by (simp add: T remove_white_space_def A_def N_def M_def)
qed

section \<open>Properties of the version classifier\<close>

text \<open>The summary of a scan keeps the scan's name, whatever the two overrides of the
  version classifier are.\<close>

lemma scan_summary_name:
  assumes "scan_record x"
  shows "\<exists>r. copy_common_attributes x
                [(''project_name'', VStr pn), (''version_name'', VStr vn)] = Inr r
             \<and> name_endswith suf (VDict r) = name_endswith suf x"
proof -
  from assms have loc: "has_locator x" by (simp add: scan_record_def)
  then obtain kvs meta href where x: "x = VDict kvs" and meta: "map_of kvs ''_meta'' = Some meta"
    and href: "subscript meta ''href'' = Inr href"
    by (rule has_locatorE)
  from copy_common_attributes_dict [OF meta href] obtain r where
    r: "copy_common_attributes (VDict kvs)
          [(''project_name'', VStr pn), (''version_name'', VStr vn)] = Inr r"
    and m: "map_of r = (map_of kvs |` set COMMON_ATTRIBUTES) ++ [''url'' \<mapsto> href]
              ++ map_of (rev [(''project_name'', VStr pn), (''version_name'', VStr vn)])"
    by blast
  have "map_of r ''name'' = map_of kvs ''name''"
    unfolding m by (simp add: map_add_def COMMON_ATTRIBUTES_def)
  then have "name_endswith suf (VDict r) = name_endswith suf (VDict kvs)"
    by (simp add: name_endswith_def)
  with r x show ?thesis by blast
qed

lemma scan_infos_ok:
  assumes "\<forall>x\<in>set xs. scan_record x"
  shows "\<exists>infos. scan_infos suf pn vn xs = Inr infos
           \<and> list_all2 (is_summary [(''project_name'', VStr pn), (''version_name'', VStr vn)])
                infos (filter (name_endswith suf) xs)
           \<and> list_all (name_endswith suf) infos"
  using assms
proof (induction xs)
  case Nil
  show ?case by simp
next
  case (Cons x xs)
  then obtain infos where infos: "scan_infos suf pn vn xs = Inr infos"
    "list_all2 (is_summary [(''project_name'', VStr pn), (''version_name'', VStr vn)])
                infos (filter (name_endswith suf) xs)"
    "list_all (name_endswith suf) infos"
    by auto
  from Cons.prems have rec: "scan_record x" by simp
  then obtain n where n: "subscript x ''name'' = Inr (VStr n)"
    by (auto simp: scan_record_def split: sum.splits val.splits)
  from scan_summary_name [OF rec] obtain r where
    r: "copy_common_attributes x [(''project_name'', VStr pn), (''version_name'', VStr vn)] = Inr r"
    and keep: "name_endswith suf (VDict r) = name_endswith suf x"
    by blast
  have ends: "name_endswith suf x = endswith n suf"
    using n by (simp add: name_endswith_def)
  show ?case
  proof (cases "endswith n suf")
    case True
    with n r infos have "scan_infos suf pn vn (x # xs) = Inr (VDict r # infos)" by simp
    moreover have "is_summary [(''project_name'', VStr pn), (''version_name'', VStr vn)] (VDict r) x"
      using r by (simp add: is_summary_def)
    ultimately show ?thesis using infos True ends keep by simp
  next
    case False
    with n infos have "scan_infos suf pn vn (x # xs) = Inr infos" by simp
    then show ?thesis using infos False ends by simp
  qed
qed

lemma endswith_iff: "endswith s suf \<longleftrightarrow> (\<exists>p. s = p @ suf)"
proof
  assume "endswith s suf"
  then have "rev s = rev suf @ drop (length suf) (rev s)"
    unfolding endswith_def by (metis append_take_drop_id)
  then have "s = rev (drop (length suf) (rev s)) @ suf"
    by (metis rev_append rev_rev_ident)
  then show "\<exists>p. s = p @ suf" ..
next
  assume "\<exists>p. s = p @ suf"
  then show "endswith s suf" by (auto simp: endswith_def)
qed

text \<open>What \<^verbatim>\<open>analyze_version\<close> returns on a version with more scans than the threshold.\<close>

lemma analyze_version_many:
  assumes vn: "subscript version ''versionName'' = Inr (VStr vn)"
    and loc: "has_locator version"
    and fetch: "get_version_codelocations h version = Inr scans"
    and items: "guarded_items scans = Inr items"
    and iter: "py_iter items = Inr scan_objs"
    and many: "scan_objs \<noteq> []" "int (length scan_objs) > max_scans_per_version cfg"
    and recs: "\<forall>x\<in>set scan_objs. scan_record x"
  shows "\<exists>info sig bom.
           copy_common_attributes version [(''project_name'', VStr pn)] = Inr info
         \<and> list_all2 (is_summary [(''project_name'', VStr pn), (''version_name'', VStr vn)])
              sig (filter (name_endswith ''scan'') scan_objs)
         \<and> list_all (name_endswith ''scan'') sig
         \<and> list_all2 (is_summary [(''project_name'', VStr pn), (''version_name'', VStr vn)])
              bom (filter (name_endswith ''bom'') scan_objs)
         \<and> list_all (name_endswith ''bom'') bom
         \<and> analyze_version cfg h pn version s =
             Inr (s\<lparr>suspect_versions := suspect_versions s @
                     [VDict (AList.update ''bom_scan_info'' (VList bom)
                            (AList.update ''signature_scan_info'' (VList sig)
                            (AList.update ''message''
                               (VStr (many_scans_message cfg pn vn (int (length scan_objs))))
                               info)))],
                   reviewed_versions := List.insert (version_key pn vn) (reviewed_versions s)\<rparr>)"
proof -
  from copy_common_attributes_ok [OF loc] obtain info where
    info: "copy_common_attributes version [(''project_name'', VStr pn)] = Inr info" by blast
  from scan_infos_ok [OF recs, of "''scan''" pn vn] obtain sig where
    sig: "scan_infos ''scan'' pn vn scan_objs = Inr sig"
      "list_all2 (is_summary [(''project_name'', VStr pn), (''version_name'', VStr vn)])
              sig (filter (name_endswith ''scan'') scan_objs)"
      "list_all (name_endswith ''scan'') sig" by blast
  from scan_infos_ok [OF recs, of "''bom''" pn vn] obtain bom where
    bom: "scan_infos ''bom'' pn vn scan_objs = Inr bom"
      "list_all2 (is_summary [(''project_name'', VStr pn), (''version_name'', VStr vn)])
              bom (filter (name_endswith ''bom'') scan_objs)"
      "list_all (name_endswith ''bom'') bom" by blast
  have "classify_version cfg pn vn version scans s =
      Inr (s\<lparr>suspect_versions := suspect_versions s @
                     [VDict (AList.update ''bom_scan_info'' (VList bom)
                            (AList.update ''signature_scan_info'' (VList sig)
                            (AList.update ''message''
                               (VStr (many_scans_message cfg pn vn (int (length scan_objs))))
                               info)))]\<rparr>)"
    using items iter many info sig(1) bom(1) by (simp add: classify_version_def)
  then have "analyze_version cfg h pn version s =
             Inr (s\<lparr>suspect_versions := suspect_versions s @
                     [VDict (AList.update ''bom_scan_info'' (VList bom)
                            (AList.update ''signature_scan_info'' (VList sig)
                            (AList.update ''message''
                               (VStr (many_scans_message cfg pn vn (int (length scan_objs))))
                               info)))],
                   reviewed_versions := List.insert (version_key pn vn) (reviewed_versions s)\<rparr>)"
    using vn fetch by (simp add: analyze_version_def)
  with info sig(2,3) bom(2,3) show ?thesis by blast
qed

lemma analyze_version_few:
  assumes vn: "subscript version ''versionName'' = Inr (VStr vn)"
    and loc: "has_locator version"
    and fetch: "get_version_codelocations h version = Inr scans"
    and items: "guarded_items scans = Inr items"
    and iter: "py_iter items = Inr scan_objs"
    and few: "scan_objs \<noteq> []" "int (length scan_objs) \<le> max_scans_per_version cfg"
  shows "analyze_version cfg h pn version s =
           Inr (s\<lparr>reviewed_versions := List.insert (version_key pn vn) (reviewed_versions s)\<rparr>)"
proof -
  from copy_common_attributes_ok [OF loc] obtain info where
    info: "copy_common_attributes version [(''project_name'', VStr pn)] = Inr info" by blast
  have "classify_version cfg pn vn version scans s = Inr s"
    using items iter few info by (simp add: classify_version_def)
  then show ?thesis using vn fetch by (simp add: analyze_version_def)
qed

lemma analyze_version_zero:
  assumes vn: "subscript version ''versionName'' = Inr (VStr vn)"
    and loc: "has_locator version"
    and fetch: "get_version_codelocations h version = Inr scans"
    and items: "guarded_items scans = Inr items"
    and iter: "py_iter items = Inr []"
  shows "\<exists>info. analyze_version cfg h pn version s =
           Inr (s\<lparr>suspect_versions := suspect_versions s @
                   [VDict (AList.update ''message'' (VStr (zero_scans_message pn vn)) info)],
                 reviewed_versions := List.insert (version_key pn vn) (reviewed_versions s)\<rparr>)"
proof -
  from copy_common_attributes_ok [OF loc] obtain info where
    info: "copy_common_attributes version [(''project_name'', VStr pn)] = Inr info" by blast
  have "classify_version cfg pn vn version scans s =
      Inr (s\<lparr>suspect_versions := suspect_versions s @
                   [VDict (AList.update ''message'' (VStr (zero_scans_message pn vn)) info)]\<rparr>)"
    using items iter info by (simp add: classify_version_def)
  then have "analyze_version cfg h pn version s =
           Inr (s\<lparr>suspect_versions := suspect_versions s @
                   [VDict (AList.update ''message'' (VStr (zero_scans_message pn vn)) info)],
                 reviewed_versions := List.insert (version_key pn vn) (reviewed_versions s)\<rparr>)"
    using vn fetch by (simp add: analyze_version_def)
  then show ?thesis by blast
qed

lemma version_ex_facts:
  "subscript version_ex ''versionName'' = Inr (VStr ''v'')"
  "has_locator version_ex"
  "get_version_codelocations hub_two version_ex = Inr (VDict [(''items'', VList two_scans)])"
  "guarded_items (VDict [(''items'', VList two_scans)]) = Inr (VList two_scans)"
  "py_iter (VList two_scans) = Inr two_scans"
  "get_version_codelocations hub_ex version_ex = Inr (VDict [(''items'', VList three_scans)])"
  "guarded_items (VDict [(''items'', VList three_scans)]) = Inr (VList three_scans)"
  "py_iter (VList three_scans) = Inr three_scans"
  by (simp_all add: version_ex_def entity_def has_locator_def hub_two_def hub_ex_def
        guarded_items_def)

lemma three_scans_facts:
  "three_scans \<noteq> []"
  "int (length three_scans) > max_scans_per_version cfg_ex"
  "int (length three_scans) = max_scans_per_version cfg_ex + 1"
  "list_all scan_record three_scans"
  "filter (name_endswith ''scan'') three_scans = [entity ''name'' ''foo-scan'' ''u/1'']"
  "filter (name_endswith ''bom'') three_scans = [entity ''name'' ''foo-bom'' ''u/2'']"
  by (simp_all add: three_scans_def cfg_ex_def scan_record_def has_locator_def entity_def
        name_endswith_def endswith_def)

lemma is_summary_single:
  assumes "list_all2 (is_summary kwargs) infos [x]" and "copy_common_attributes x kwargs = Inr r"
  shows "infos = [VDict r]"
proof -
  from assms(1) obtain z where z: "infos = [z]" "is_summary kwargs z x"
    by (auto simp: list_all2_Cons2)
  with assms(2) have "z = VDict r" by (cases z) (simp_all add: is_summary_def)
  with z show ?thesis by simp
qed

lemma show_int_examples: "show_int 3 = ''3''" "show_int 20 = ''20''"
  by code_simp+

text \<open>
  C6. A version has a string name and a locator, and its scans are fetched. With exactly
  \<open>max_scans_per_version\<close> scans, and at least one, \<^verbatim>\<open>analyze_version\<close> adds no
  finding to \<open>suspect_versions\<close>; with \<open>max_scans_per_version + 1\<close> scans, each a record
  with a string name and a locator, it adds one.
\<close>

theorem version_scan_threshold:
  assumes vn: "subscript version ''versionName'' = Inr (VStr vn)"
    and loc: "has_locator version"
    and fetch: "get_version_codelocations h version = Inr scans"
    and items: "guarded_items scans = Inr items"
    and iter: "py_iter items = Inr scan_objs"
  shows "(scan_objs \<noteq> [] \<and> int (length scan_objs) = max_scans_per_version cfg \<longrightarrow>
           (\<exists>s'. analyze_version cfg h pn version s = Inr s'
                \<and> suspect_versions s' = suspect_versions s))
       \<and> (int (length scan_objs) = max_scans_per_version cfg + 1
            \<and> list_all scan_record scan_objs \<longrightarrow>
           (\<exists>s' finding. analyze_version cfg h pn version s = Inr s'
                \<and> suspect_versions s' = suspect_versions s @ [finding]))"
proof (intro conjI impI)
  assume "scan_objs \<noteq> [] \<and> int (length scan_objs) = max_scans_per_version cfg"
  then have ne: "scan_objs \<noteq> []" and le: "int (length scan_objs) \<le> max_scans_per_version cfg"
    by simp_all
  have "analyze_version cfg h pn version s =
           Inr (s\<lparr>reviewed_versions := List.insert (version_key pn vn) (reviewed_versions s)\<rparr>)"
    by (rule analyze_version_few [OF vn loc fetch items iter ne le])
  then show "\<exists>s'. analyze_version cfg h pn version s = Inr s'
                \<and> suspect_versions s' = suspect_versions s" by simp
next
  assume a: "int (length scan_objs) = max_scans_per_version cfg + 1
            \<and> list_all scan_record scan_objs"
  show "\<exists>s' finding. analyze_version cfg h pn version s = Inr s'
                \<and> suspect_versions s' = suspect_versions s @ [finding]"
  proof (cases "scan_objs = []")
    case True
    with iter have "py_iter items = Inr []" by simp
    from analyze_version_zero [OF vn loc fetch items this, of cfg pn s]
    show ?thesis by auto
  next
    case False
    moreover from a have "int (length scan_objs) > max_scans_per_version cfg" by simp
    moreover from a have "\<forall>x\<in>set scan_objs. scan_record x" by (simp add: list_all_iff)
    ultimately show ?thesis
      using analyze_version_many [OF vn loc fetch items iter, of cfg pn s] by auto
  qed
qed

text \<open>
  The theorem with a threshold of 2: the version with two scans and the version with three.
\<close>

theorem version_scan_threshold_witness:
  "subscript version_ex ''versionName'' = Inr (VStr ''v'')
   \<and> has_locator version_ex
   \<and> get_version_codelocations hub_two version_ex = Inr (VDict [(''items'', VList two_scans)])
   \<and> guarded_items (VDict [(''items'', VList two_scans)]) = Inr (VList two_scans)
   \<and> py_iter (VList two_scans) = Inr two_scans
   \<and> two_scans \<noteq> [] \<and> int (length two_scans) = max_scans_per_version cfg_ex
   \<and> (\<exists>s'. analyze_version cfg_ex hub_two ''p'' version_ex new_state = Inr s'
           \<and> suspect_versions s' = suspect_versions new_state)
   \<and> get_version_codelocations hub_ex version_ex = Inr (VDict [(''items'', VList three_scans)])
   \<and> guarded_items (VDict [(''items'', VList three_scans)]) = Inr (VList three_scans)
   \<and> py_iter (VList three_scans) = Inr three_scans
   \<and> int (length three_scans) = max_scans_per_version cfg_ex + 1
   \<and> list_all scan_record three_scans
   \<and> (\<exists>s' finding. analyze_version cfg_ex hub_ex ''p'' version_ex new_state = Inr s'
           \<and> suspect_versions s' = suspect_versions new_state @ [finding])"
proof -
  note f = version_ex_facts
  have two: "two_scans \<noteq> [] \<and> int (length two_scans) = max_scans_per_version cfg_ex"
    by (simp add: two_scans_def cfg_ex_def)
  have three: "int (length three_scans) = max_scans_per_version cfg_ex + 1
      \<and> list_all scan_record three_scans"
    using three_scans_facts(3,4) by (rule conjI)
  from version_scan_threshold [where cfg = cfg_ex and pn = "''p''" and s = new_state,
      OF f(1) f(2) f(3) f(4) f(5)] two
  have c2: "\<exists>s'. analyze_version cfg_ex hub_two ''p'' version_ex new_state = Inr s'
           \<and> suspect_versions s' = suspect_versions new_state" by blast
  from version_scan_threshold [where cfg = cfg_ex and pn = "''p''" and s = new_state,
      OF f(1) f(2) f(6) f(7) f(8)] three
  have c3: "\<exists>s' finding. analyze_version cfg_ex hub_ex ''p'' version_ex new_state = Inr s'
           \<and> suspect_versions s' = suspect_versions new_state @ [finding]" by blast
  from f two c2 three c3 show ?thesis by (intro conjI) (erule conjunct1 conjunct2 | assumption)+
qed

text \<open>
  C7. On a version with at least one scan and more scans than \<open>max_scans_per_version\<close>,
  the finding's \<open>signature_scan_info\<close> is the list of the summaries of the scans whose name
  ends with \<open>scan\<close>, in order, and \<open>bom_scan_info\<close> that of the scans whose name ends with
  \<open>bom\<close>; every entry of a bucket has a name with the bucket's suffix, so a scan with
  neither suffix is in neither.
\<close>

theorem suspect_version_scan_partition:
  assumes vn: "subscript version ''versionName'' = Inr (VStr vn)"
    and loc: "has_locator version"
    and fetch: "get_version_codelocations h version = Inr scans"
    and items: "guarded_items scans = Inr items"
    and iter: "py_iter items = Inr scan_objs"
    and many: "scan_objs \<noteq> []" "int (length scan_objs) > max_scans_per_version cfg"
    and recs: "list_all scan_record scan_objs"
  shows "\<exists>s' finding sig bom.
           analyze_version cfg h pn version s = Inr s'
         \<and> suspect_versions s' = suspect_versions s @ [VDict finding]
         \<and> map_of finding ''signature_scan_info'' = Some (VList sig)
         \<and> map_of finding ''bom_scan_info'' = Some (VList bom)
         \<and> list_all2 (is_summary [(''project_name'', VStr pn), (''version_name'', VStr vn)])
              sig (filter (name_endswith ''scan'') scan_objs)
         \<and> list_all (name_endswith ''scan'') sig
         \<and> list_all2 (is_summary [(''project_name'', VStr pn), (''version_name'', VStr vn)])
              bom (filter (name_endswith ''bom'') scan_objs)
         \<and> list_all (name_endswith ''bom'') bom"
proof -
  from recs have "\<forall>x\<in>set scan_objs. scan_record x" by (simp add: list_all_iff)
  from analyze_version_many [OF vn loc fetch items iter many this, of pn s]
  obtain info sig bom where
    parts: "list_all2 (is_summary [(''project_name'', VStr pn), (''version_name'', VStr vn)])
              sig (filter (name_endswith ''scan'') scan_objs)"
      "list_all (name_endswith ''scan'') sig"
      "list_all2 (is_summary [(''project_name'', VStr pn), (''version_name'', VStr vn)])
              bom (filter (name_endswith ''bom'') scan_objs)"
      "list_all (name_endswith ''bom'') bom"
    and run: "analyze_version cfg h pn version s =
             Inr (s\<lparr>suspect_versions := suspect_versions s @
                     [VDict (AList.update ''bom_scan_info'' (VList bom)
                            (AList.update ''signature_scan_info'' (VList sig)
                            (AList.update ''message''
                               (VStr (many_scans_message cfg pn vn (int (length scan_objs))))
                               info)))],
                   reviewed_versions := List.insert (version_key pn vn) (reviewed_versions s)\<rparr>)"
    by blast
  define finding where "finding = AList.update ''bom_scan_info'' (VList bom)
                            (AList.update ''signature_scan_info'' (VList sig)
                            (AList.update ''message''
                               (VStr (many_scans_message cfg pn vn (int (length scan_objs))))
                               info))"
  have "map_of finding ''signature_scan_info'' = Some (VList sig)"
    and "map_of finding ''bom_scan_info'' = Some (VList bom)"
    by (simp_all add: finding_def update_conv')
  moreover have "\<exists>s'. analyze_version cfg h pn version s = Inr s'
         \<and> suspect_versions s' = suspect_versions s @ [VDict finding]"
    using run by (simp add: finding_def)
  ultimately show ?thesis using parts by blast
qed

text \<open>
  The theorem on the scans \<open>foo-scan\<close>, \<open>foo-bom\<close> and \<open>other\<close> with a threshold of 2.
\<close>

theorem suspect_version_scan_partition_witness:
  "subscript version_ex ''versionName'' = Inr (VStr ''v'')
   \<and> has_locator version_ex
   \<and> get_version_codelocations hub_ex version_ex = Inr (VDict [(''items'', VList three_scans)])
   \<and> guarded_items (VDict [(''items'', VList three_scans)]) = Inr (VList three_scans)
   \<and> py_iter (VList three_scans) = Inr three_scans
   \<and> three_scans \<noteq> []
   \<and> int (length three_scans) > max_scans_per_version cfg_ex
   \<and> list_all scan_record three_scans
   \<and> (\<exists>s' finding.
         analyze_version cfg_ex hub_ex ''p'' version_ex new_state = Inr s'
       \<and> suspect_versions s' = suspect_versions new_state @ [VDict finding]
       \<and> map_of finding ''signature_scan_info'' = Some (VList
            [VDict [(''name'', VStr ''foo-scan''), (''url'', VStr ''u/1''),
                    (''project_name'', VStr ''p''), (''version_name'', VStr ''v'')]])
       \<and> map_of finding ''bom_scan_info'' = Some (VList
            [VDict [(''name'', VStr ''foo-bom''), (''url'', VStr ''u/2''),
                    (''project_name'', VStr ''p''), (''version_name'', VStr ''v'')]]))"
proof -
  note f = version_ex_facts
  note t = three_scans_facts
  from suspect_version_scan_partition [where cfg = cfg_ex and pn = "''p''" and s = new_state,
      OF f(1) f(2) f(6) f(7) f(8) t(1) t(2) t(4)]
  obtain s' finding sig bom where
    run: "analyze_version cfg_ex hub_ex ''p'' version_ex new_state = Inr s'"
      "suspect_versions s' = suspect_versions new_state @ [VDict finding]"
    and look: "map_of finding ''signature_scan_info'' = Some (VList sig)"
      "map_of finding ''bom_scan_info'' = Some (VList bom)"
    and sig: "list_all2 (is_summary [(''project_name'', VStr ''p''), (''version_name'', VStr ''v'')])
              sig (filter (name_endswith ''scan'') three_scans)"
    and bom: "list_all2 (is_summary [(''project_name'', VStr ''p''), (''version_name'', VStr ''v'')])
              bom (filter (name_endswith ''bom'') three_scans)"
    by blast
  have "sig = [VDict [(''name'', VStr ''foo-scan''), (''url'', VStr ''u/1''),
                    (''project_name'', VStr ''p''), (''version_name'', VStr ''v'')]]"
    using sig unfolding t(5)
    by (rule is_summary_single) (simp add: copy_common_attributes_def COMMON_ATTRIBUTES_def entity_def)
  moreover have "bom = [VDict [(''name'', VStr ''foo-bom''), (''url'', VStr ''u/2''),
                    (''project_name'', VStr ''p''), (''version_name'', VStr ''v'')]]"
    using bom unfolding t(6)
    by (rule is_summary_single) (simp add: copy_common_attributes_def COMMON_ATTRIBUTES_def entity_def)
  ultimately have "\<exists>s' finding.
         analyze_version cfg_ex hub_ex ''p'' version_ex new_state = Inr s'
       \<and> suspect_versions s' = suspect_versions new_state @ [VDict finding]
       \<and> map_of finding ''signature_scan_info'' = Some (VList
            [VDict [(''name'', VStr ''foo-scan''), (''url'', VStr ''u/1''),
                    (''project_name'', VStr ''p''), (''version_name'', VStr ''v'')]])
       \<and> map_of finding ''bom_scan_info'' = Some (VList
            [VDict [(''name'', VStr ''foo-bom''), (''url'', VStr ''u/2''),
                    (''project_name'', VStr ''p''), (''version_name'', VStr ''v'')]])"
    using run look by blast
  with f(1) f(2) f(6) f(7) f(8) t(1) t(2) t(4) show ?thesis by (intro conjI)
qed

text \<open>
  C10. On a version with at least one scan and more scans than \<open>max_scans_per_version\<close>,
  the finding's message is the normalised project and version names followed by the scan
  count and, as the maximum recommended, the value of \<open>max_versions_per_project\<close>.
\<close>

theorem suspect_version_message_quotes_max_versions:
  assumes vn: "subscript version ''versionName'' = Inr (VStr vn)"
    and loc: "has_locator version"
    and fetch: "get_version_codelocations h version = Inr scans"
    and items: "guarded_items scans = Inr items"
    and iter: "py_iter items = Inr scan_objs"
    and many: "scan_objs \<noteq> []" "int (length scan_objs) > max_scans_per_version cfg"
    and recs: "list_all scan_record scan_objs"
  shows "\<exists>s' finding.
           analyze_version cfg h pn version s = Inr s'
         \<and> suspect_versions s' = suspect_versions s @ [VDict finding]
         \<and> map_of finding ''message'' = Some (VStr
              (remove_white_space (''Project '' @ pn @ '', version '' @ vn)
               @ '' has '' @ show_int (int (length scan_objs))
               @ '' scans which is greater than the maximum recommended versions of ''
               @ show_int (max_versions_per_project cfg)
               @ ''. Review the scans to make sure there are not redundant scans all mapped to this project version. Look for scans with similar names or sizes. If redundant scans are found, you should delete them and update the scanning setup to use --detect.code.location.name with hub-detect to override scan names and delete redundant scans.''))"
proof -
  from recs have "\<forall>x\<in>set scan_objs. scan_record x" by (simp add: list_all_iff)
  from analyze_version_many [OF vn loc fetch items iter many this, of pn s]
  obtain info sig bom where
    run: "analyze_version cfg h pn version s =
             Inr (s\<lparr>suspect_versions := suspect_versions s @
                     [VDict (AList.update ''bom_scan_info'' (VList bom)
                            (AList.update ''signature_scan_info'' (VList sig)
                            (AList.update ''message''
                               (VStr (many_scans_message cfg pn vn (int (length scan_objs))))
                               info)))],
                   reviewed_versions := List.insert (version_key pn vn) (reviewed_versions s)\<rparr>)"
    by blast
  define finding where "finding = AList.update ''bom_scan_info'' (VList bom)
                            (AList.update ''signature_scan_info'' (VList sig)
                            (AList.update ''message''
                               (VStr (many_scans_message cfg pn vn (int (length scan_objs))))
                               info))"
  have "map_of finding ''message''
          = Some (VStr (many_scans_message cfg pn vn (int (length scan_objs))))"
    by (simp add: finding_def update_conv')
  then have "map_of finding ''message'' = Some (VStr
              (remove_white_space (''Project '' @ pn @ '', version '' @ vn)
               @ '' has '' @ show_int (int (length scan_objs))
               @ '' scans which is greater than the maximum recommended versions of ''
               @ show_int (max_versions_per_project cfg)
               @ ''. Review the scans to make sure there are not redundant scans all mapped to this project version. Look for scans with similar names or sizes. If redundant scans are found, you should delete them and update the scanning setup to use --detect.code.location.name with hub-detect to override scan names and delete redundant scans.''))"
    by (simp only: many_scans_message_text)
  moreover have "\<exists>s'. analyze_version cfg h pn version s = Inr s'
         \<and> suspect_versions s' = suspect_versions s @ [VDict finding]"
    using run by (simp add: finding_def)
  ultimately show ?thesis by blast
qed

text \<open>
  The theorem with \<open>max_scans_per_version = 2\<close> and \<open>max_versions_per_project = 20\<close>: the
  message quotes 20.
\<close>

theorem suspect_version_message_quotes_max_versions_witness:
  "subscript version_ex ''versionName'' = Inr (VStr ''v'')
   \<and> has_locator version_ex
   \<and> get_version_codelocations hub_ex version_ex = Inr (VDict [(''items'', VList three_scans)])
   \<and> guarded_items (VDict [(''items'', VList three_scans)]) = Inr (VList three_scans)
   \<and> py_iter (VList three_scans) = Inr three_scans
   \<and> three_scans \<noteq> []
   \<and> int (length three_scans) > max_scans_per_version cfg_ex
   \<and> list_all scan_record three_scans
   \<and> max_scans_per_version cfg_ex = 2 \<and> max_versions_per_project cfg_ex = 20
   \<and> (\<exists>s' finding.
         analyze_version cfg_ex hub_ex ''p'' version_ex new_state = Inr s'
       \<and> suspect_versions s' = suspect_versions new_state @ [VDict finding]
       \<and> map_of finding ''message'' = Some (VStr
            ''Project p, version v has 3 scans which is greater than the maximum recommended versions of 20. Review the scans to make sure there are not redundant scans all mapped to this project version. Look for scans with similar names or sizes. If redundant scans are found, you should delete them and update the scanning setup to use --detect.code.location.name with hub-detect to override scan names and delete redundant scans.''))"
proof -
  note f = version_ex_facts
  note t = three_scans_facts
  have head: "remove_white_space (''Project '' @ ''p'' @ '', version '' @ ''v'')
      = ''Project p, version v''"
    by (simp add: remove_white_space_def is_space_def)
  have n: "show_int (int (length three_scans)) = ''3''"
    "show_int (max_versions_per_project cfg_ex) = ''20''"
    by (simp_all add: three_scans_def cfg_ex_def show_int_examples)
  from suspect_version_message_quotes_max_versions
    [where cfg = cfg_ex and pn = "''p''" and s = new_state,
      OF f(1) f(2) f(6) f(7) f(8) t(1) t(2) t(4)]
  have "\<exists>s' finding.
         analyze_version cfg_ex hub_ex ''p'' version_ex new_state = Inr s'
       \<and> suspect_versions s' = suspect_versions new_state @ [VDict finding]
       \<and> map_of finding ''message'' = Some (VStr
            ''Project p, version v has 3 scans which is greater than the maximum recommended versions of 20. Review the scans to make sure there are not redundant scans all mapped to this project version. Look for scans with similar names or sizes. If redundant scans are found, you should delete them and update the scanning setup to use --detect.code.location.name with hub-detect to override scan names and delete redundant scans.'')"
    unfolding head n by simp
  moreover have "max_scans_per_version cfg_ex = 2 \<and> max_versions_per_project cfg_ex = 20"
    by (simp add: cfg_ex_def)
  ultimately show ?thesis using f(1) f(2) f(6) f(7) f(8) t(1) t(2) t(4) by (intro conjI) simp_all
qed

end
